theory Spec2Isabelle
  imports Complex_Main "HOL-Library.AList" "HOL-Library.Multiset"
begin

section \<open>Strings\<close>

text \<open>
  A \<^typ>\<open>string\<close> stands for a JavaScript string all of whose UTF-16 code units are below
  256, one \<^typ>\<open>char\<close> per code unit, so \<^const>\<open>length\<close> is \<^verbatim>\<open>.length\<close>.

  \<^verbatim>\<open>\s\<close> in a regular expression and \<^verbatim>\<open>String.prototype.trim\<close> use the same set,
  ECMAScript's WhiteSpace and LineTerminator; below 256 these are the code units 9 to 13
  (tab, line feed, vertical tab, form feed, carriage return), 32 (space) and 160
  (no-break space).  \<^verbatim>\<open>toLowerCase\<close> below 256 maps \<^verbatim>\<open>A-Z\<close> and the Latin-1
  capitals 192 to 222 (but not the multiplication sign 215) 32 code units up and leaves every
  other code unit alone.
\<close>

definition isWhiteSpace :: "char \<Rightarrow> bool" where
  "isWhiteSpace c = (of_char c \<in> {9, 10, 11, 12, 13, 32, 160 :: nat})"

definition lowerChar :: "char \<Rightarrow> char" where
  "lowerChar c =
     (let n = (of_char c :: nat)
      in if (65 \<le> n \<and> n \<le> 90) \<or> (192 \<le> n \<and> n \<le> 222 \<and> n \<noteq> 215)
         then char_of (n + 32) else c)"

definition toLowerCase :: "string \<Rightarrow> string" where
  "toLowerCase s = map lowerChar s"

definition trim :: "string \<Rightarrow> string" where
  "trim s = rev (dropWhile isWhiteSpace (rev (dropWhile isWhiteSpace s)))"

text \<open>\<^verbatim>\<open>s.includes(sub)\<close>: \<^verbatim>\<open>sub\<close> occurs in \<^verbatim>\<open>s\<close> as a contiguous run.\<close>

fun includes_str :: "string \<Rightarrow> string \<Rightarrow> bool" where
  "includes_str [] sub = (sub = [])"
| "includes_str (c # cs) sub = (take (length sub) (c # cs) = sub \<or> includes_str cs sub)"

text \<open>
  \<^verbatim>\<open>s.split(/[...]+/)\<close> for a character class \<^verbatim>\<open>sep\<close>: the pieces of \<^verbatim>\<open>s\<close> between
  the maximal runs of separator characters.  A run at the very start or end leaves an empty
  piece there, and a string without any separator (the empty string too) is its own single
  piece.
\<close>

function split :: "(char \<Rightarrow> bool) \<Rightarrow> string \<Rightarrow> string list" where
  "split sep s =
     (let word = takeWhile (\<lambda>c. \<not> sep c) s;
          rest = dropWhile (\<lambda>c. \<not> sep c) s
      in if rest = [] then [word] else word # split sep (dropWhile sep rest))"
  by pat_completeness auto
termination
proof (relation "measure (\<lambda>(sep, s). length s)")
  show "wf (measure (\<lambda>(sep, s). length s))" by simp
next
  fix sep :: "char \<Rightarrow> bool" and s word rest :: string
  assume r: "rest = dropWhile (\<lambda>c. \<not> sep c) s" and ne: "rest \<noteq> []"
  from ne obtain c cs where rc: "rest = c # cs" by (cases rest) auto
  have "length (dropWhile sep rest) \<le> length cs"
  proof -
    have "\<not> \<not> sep (hd rest)"
      using hd_dropWhile[of "\<lambda>c. \<not> sep c" s] r ne by blast
    then have "sep c" using rc by simp
    then show ?thesis using rc by (simp add: length_dropWhile_le)
  qed
  moreover have "length rest \<le> length s" using r by (simp add: length_dropWhile_le)
  ultimately show "((sep, dropWhile sep rest), (sep, s)) \<in> measure (\<lambda>(sep, s). length s)"
    using rc by simp
qed

declare split.simps [simp del]

section \<open>Keyword extractor\<close>

text \<open>
  \<^verbatim>\<open>extractKeywords\<close> splits on \<^verbatim>\<open>/[\s/-_.,!?():]+/\<close>.  Inside the class,
  \<^verbatim>\<open>/-_\<close> is a range: every code unit from the slash (47) to the underscore (95).  So the
  class holds the white space, that range (the slash, the digits, \<^verbatim>\<open>: ; < = > ? @\<close>, the
  capital letters, \<^verbatim>\<open>[ \ ] ^\<close> and the underscore) and the characters
  \<^verbatim>\<open>. , ! ? ( ) :\<close> listed one by one.  The dash (45) is not in it.
\<close>

definition isSeparator :: "char \<Rightarrow> bool" where
  "isSeparator c =
     (isWhiteSpace c
      \<or> ((of_char (CHR ''/'') :: nat) \<le> of_char c \<and> (of_char c :: nat) \<le> of_char (CHR ''_''))
      \<or> c \<in> set ''.,!?():'')"

definition stopWords :: "string list" where
  "stopWords =
    [''the'', ''and'', ''for'', ''are'', ''but'', ''not'', ''you'', ''all'', ''can'', ''had'',
     ''her'', ''was'', ''one'', ''our'', ''out'', ''day'', ''get'', ''has'', ''him'', ''his'',
     ''how'', ''its'', ''may'', ''new'', ''now'', ''old'', ''see'', ''two'', ''who'', ''boy'',
     ''did'', ''does'', ''let'', ''put'', ''say'', ''she'', ''too'', ''use'']"

definition isDigit :: "char \<Rightarrow> bool" where
  "isDigit c = (48 \<le> (of_char c :: nat) \<and> (of_char c :: nat) \<le> 57)"

text \<open>\<^verbatim>\<open>word.match(/^\d+$/)\<close>: one digit or more and nothing else.\<close>

definition isNumber :: "string \<Rightarrow> bool" where
  "isNumber w = (w \<noteq> [] \<and> list_all isDigit w)"

definition extractKeywords :: "string \<Rightarrow> string list" where
  "extractKeywords text =
     filter (\<lambda>word. \<not> isNumber word)
       (filter (\<lambda>word. word \<notin> set stopWords)
          (filter (\<lambda>word. length word > 2)
             (split isSeparator (toLowerCase text))))"

text \<open>
  The separators as the specification lists them, for comparison with the code: white space
  and the ten characters space, slash, dash, underscore, period, comma, \<^verbatim>\<open>! ? ( )\<close>.
\<close>

definition isSeparator_spec :: "char \<Rightarrow> bool" where
  "isSeparator_spec c = (isWhiteSpace c \<or> c \<in> set '' /-_.,!?()'')"

definition extractKeywords_spec :: "string \<Rightarrow> string list" where
  "extractKeywords_spec text =
     filter (\<lambda>word. \<not> isNumber word)
       (filter (\<lambda>word. word \<notin> set stopWords)
          (filter (\<lambda>word. length word > 2)
             (split isSeparator_spec (toLowerCase text))))"

text \<open>
  The characters the class of the code names one by one, the colon among them, and the
  characters that are in the class only through the range \<^verbatim>\<open>/-_\<close> or, for the dash,
  out of it because of the range.
\<close>

definition isListedSeparator :: "char \<Rightarrow> bool" where
  "isListedSeparator c = (isWhiteSpace c \<or> c \<in> set ''/_.,!?():'')"

definition inRangeOnly :: "char \<Rightarrow> bool" where
  "inRangeOnly c =
     (c = CHR ''-'' \<or> isDigit c \<or> c \<in> set '';<=>@[]^'' \<or> c = CHR 0x5C)"

section \<open>JSON.parse\<close>

text \<open>
  The replies of the generative service are decoded with \<^verbatim>\<open>JSON.parse\<close>, which either
  returns a value or throws a \<^verbatim>\<open>SyntaxError\<close> (\<^const>\<open>None\<close> here).  The grammar is
  ECMAScript's: white space is tab, line feed, carriage return and space only; a number is
  \<^verbatim>\<open>-?(0|[1-9][0-9]*)(\.[0-9]+)?([eE][+-]?[0-9]+)?\<close>; a string may hold any code unit from
  32 up except the quote and the backslash, and the escapes \<^verbatim>\<open>\" \\ \/ \b \f \n \r \t\<close>
  and \<^verbatim>\<open>\uXXXX\<close>.  The code never reads a number's value, so \<open>JNumber\<close> keeps its
  text.  An object keeps its members in the order written.  A \<^verbatim>\<open>\uXXXX\<close> escape is
  reduced to its low eight bits: whether a text parses and how many elements an array has
  are as in JavaScript, and a string's content is exact when the escape is below 256.
\<close>

datatype json =
    JNull
  | JBool bool
  | JNumber string
  | JString string
  | JArray "json list"
  | JObject "(string \<times> json) list"

datatype token =
    TLBracket | TRBracket | TLBrace | TRBrace | TComma | TColon
  | TString string | TNumber string | TTrue | TFalse | TNull

definition isJSONWhiteSpace :: "char \<Rightarrow> bool" where
  "isJSONWhiteSpace c = (of_char c \<in> {9, 10, 13, 32 :: nat})"

definition hexValue :: "char \<Rightarrow> nat option" where
  "hexValue c =
     (let n = (of_char c :: nat)
      in if 48 \<le> n \<and> n \<le> 57 then Some (n - 48)
         else if 65 \<le> n \<and> n \<le> 70 then Some (n - 55)
         else if 97 \<le> n \<and> n \<le> 102 then Some (n - 87)
         else None)"

definition unicodeEscape :: "char \<Rightarrow> char \<Rightarrow> char \<Rightarrow> char \<Rightarrow> char option" where
  "unicodeEscape a b c d =
     (case (hexValue a, hexValue b, hexValue c, hexValue d) of
        (Some h3, Some h2, Some h1, Some h0) \<Rightarrow> Some (char_of (((h3 * 16 + h2) * 16 + h1) * 16 + h0))
      | _ \<Rightarrow> None)"

definition simpleEscape :: "char \<Rightarrow> char option" where
  "simpleEscape c =
     (if c = CHR 0x22 \<or> c = CHR 0x5C \<or> c = CHR ''/'' then Some c
      else if c = CHR ''b'' then Some (CHR 0x08)
      else if c = CHR ''f'' then Some (CHR 0x0C)
      else if c = CHR ''n'' then Some (CHR 0x0A)
      else if c = CHR ''r'' then Some (CHR 0x0D)
      else if c = CHR ''t'' then Some (CHR 0x09)
      else None)"

text \<open>
  \<open>scanString\<close> reads a string's characters after its opening quote and returns the
  decoded string with the input left after the closing quote.
\<close>

fun scanString :: "string \<Rightarrow> (string \<times> string) option" where
  "scanString [] = None"
| "scanString (c # cs) =
     (if c = CHR 0x22 then Some ([], cs)
      else if c = CHR 0x5C then
        (case cs of
           [] \<Rightarrow> None
         | e # r \<Rightarrow>
             if e = CHR ''u'' then
               (case r of
                  h3 # h2 # h1 # h0 # r' \<Rightarrow>
                    (case unicodeEscape h3 h2 h1 h0 of
                       None \<Rightarrow> None
                     | Some u \<Rightarrow> map_option (\<lambda>(str, rest). (u # str, rest)) (scanString r'))
                | _ \<Rightarrow> None)
             else
               (case simpleEscape e of
                  None \<Rightarrow> None
                | Some u \<Rightarrow> map_option (\<lambda>(str, rest). (u # str, rest)) (scanString r)))
      else if (of_char c :: nat) < 32 then None
      else map_option (\<lambda>(str, rest). (c # str, rest)) (scanString cs))"

text \<open>
  \<open>scanNumber\<close> reads one number at the start of its input and returns its text with the
  input left after it.
\<close>

definition scanDigits :: "string \<Rightarrow> (string \<times> string) option" where
  "scanDigits s = (if takeWhile isDigit s = [] then None
                   else Some (takeWhile isDigit s, dropWhile isDigit s))"

definition scanInteger :: "string \<Rightarrow> (string \<times> string) option" where
  "scanInteger s =
     (case s of
        [] \<Rightarrow> None
      | c # cs \<Rightarrow> if c = CHR ''0'' then Some ([c], cs) else scanDigits s)"

definition scanFraction :: "string \<Rightarrow> (string \<times> string) option" where
  "scanFraction s =
     (case s of
        [] \<Rightarrow> Some ([], s)
      | c # cs \<Rightarrow>
          if c = CHR ''.'' then map_option (\<lambda>(ds, rest). (c # ds, rest)) (scanDigits cs)
          else Some ([], s))"

definition scanExponent :: "string \<Rightarrow> (string \<times> string) option" where
  "scanExponent s =
     (case s of
        [] \<Rightarrow> Some ([], s)
      | c # cs \<Rightarrow>
          if c = CHR ''e'' \<or> c = CHR ''E'' then
            (case cs of
               [] \<Rightarrow> None
             | g # ds \<Rightarrow>
                 if g = CHR ''+'' \<or> g = CHR ''-''
                 then map_option (\<lambda>(ds, rest). (c # g # ds, rest)) (scanDigits ds)
                 else map_option (\<lambda>(ds, rest). (c # ds, rest)) (scanDigits cs))
          else Some ([], s))"

definition scanUnsigned :: "string \<Rightarrow> (string \<times> string) option" where
  "scanUnsigned s =
     (case scanInteger s of
        None \<Rightarrow> None
      | Some (i, s1) \<Rightarrow>
          (case scanFraction s1 of
             None \<Rightarrow> None
           | Some (f, s2) \<Rightarrow>
               (case scanExponent s2 of
                  None \<Rightarrow> None
                | Some (e, s3) \<Rightarrow> Some (i @ f @ e, s3))))"

definition scanNumber :: "string \<Rightarrow> (string \<times> string) option" where
  "scanNumber s =
     (case s of
        [] \<Rightarrow> None
      | c # cs \<Rightarrow>
          if c = CHR ''-'' then map_option (\<lambda>(n, rest). (c # n, rest)) (scanUnsigned cs)
          else scanUnsigned s)"

lemma scanString_shorter: "scanString s = Some (str, rest) \<Longrightarrow> length rest < length s"
proof (induction s arbitrary: str rest rule: scanString.induct)
  case 1
  then show ?case by simp
next
  case (2 c cs)
  show ?case
  proof (cases "c = CHR 0x22")
    case True
    with "2.prems" show ?thesis by simp
  next
    case nq: False
    show ?thesis
    proof (cases "c = CHR 0x5C")
      case False
      with nq "2.prems" obtain str' where "scanString cs = Some (str', rest)"
        by (auto split: if_splits)
      with "2.IH"(3)[OF nq False] "2.prems" nq False show ?thesis
        by (fastforce split: if_splits)
    next
      case bs: True
      then obtain e r where cs: "cs = e # r"
        using "2.prems" nq by (cases cs) auto
      show ?thesis
      proof (cases "e = CHR ''u''")
        case True
        then obtain h3 h2 h1 h0 r' u str' where
          r: "r = h3 # h2 # h1 # h0 # r'" and u: "unicodeEscape h3 h2 h1 h0 = Some u"
          and s: "scanString r' = Some (str', rest)"
          using "2.prems" nq bs cs by (auto split: list.splits option.splits)
        from "2.IH"(1)[OF nq bs cs True r refl refl refl u s] show ?thesis
          using cs r by simp
      next
        case False
        then obtain u str' where u: "simpleEscape e = Some u"
          and s: "scanString r = Some (str', rest)"
          using "2.prems" nq bs cs by (auto split: option.splits)
        from "2.IH"(2)[OF nq bs cs False u s] show ?thesis using cs by simp
      qed
    qed
  qed
qed

lemma scanDigits_shorter: "scanDigits s = Some (ds, rest) \<Longrightarrow> length rest < length s"
proof -
  assume a: "scanDigits s = Some (ds, rest)"
  then have ne: "takeWhile isDigit s \<noteq> []" and r: "rest = dropWhile isDigit s"
    by (auto simp: scanDigits_def split: if_splits)
  have "length (takeWhile isDigit s) + length (dropWhile isDigit s) = length s"
    by (metis length_append takeWhile_dropWhile_id)
  with ne r show ?thesis by (cases "takeWhile isDigit s") auto
qed

lemma scanInteger_shorter: "scanInteger s = Some (i, rest) \<Longrightarrow> length rest < length s"
  by (auto simp: scanInteger_def split: list.splits if_splits dest: scanDigits_shorter)

lemma scanFraction_shorter: "scanFraction s = Some (f, rest) \<Longrightarrow> length rest \<le> length s"
  by (auto simp: scanFraction_def split: list.splits if_splits dest!: scanDigits_shorter)

lemma scanExponent_shorter: "scanExponent s = Some (e, rest) \<Longrightarrow> length rest \<le> length s"
  by (auto simp: scanExponent_def split: list.splits if_splits dest!: scanDigits_shorter)

lemma scanUnsigned_shorter: "scanUnsigned s = Some (n, rest) \<Longrightarrow> length rest < length s"
  by (auto simp: scanUnsigned_def split: option.splits
      dest!: scanInteger_shorter scanFraction_shorter scanExponent_shorter)

lemma scanNumber_shorter: "scanNumber s = Some (n, rest) \<Longrightarrow> length rest < length s"
  by (auto simp: scanNumber_def split: list.splits if_splits dest!: scanUnsigned_shorter)

text \<open>
  \<open>tokenize\<close> cuts a text into tokens.  After the keyword \<^verbatim>\<open>true\<close>, \<^verbatim>\<open>false\<close>
  or \<^verbatim>\<open>null\<close> the tokenizer goes on with the next character; a grammar that never puts
  two values side by side rejects \<^verbatim>\<open>truefalse\<close> or \<^verbatim>\<open>01\<close> all the same.
\<close>

function tokenize :: "string \<Rightarrow> token list option" where
  "tokenize [] = Some []"
| "tokenize (c # cs) =
     (if isJSONWhiteSpace c then tokenize cs
      else if c = CHR ''['' then map_option (Cons TLBracket) (tokenize cs)
      else if c = CHR '']'' then map_option (Cons TRBracket) (tokenize cs)
      else if c = CHR ''{'' then map_option (Cons TLBrace) (tokenize cs)
      else if c = CHR ''}'' then map_option (Cons TRBrace) (tokenize cs)
      else if c = CHR '','' then map_option (Cons TComma) (tokenize cs)
      else if c = CHR '':'' then map_option (Cons TColon) (tokenize cs)
      else if c = CHR 0x22 then
        (case scanString cs of
           None \<Rightarrow> None
         | Some (str, rest) \<Rightarrow> map_option (Cons (TString str)) (tokenize rest))
      else if c = CHR ''-'' \<or> isDigit c then
        (case scanNumber (c # cs) of
           None \<Rightarrow> None
         | Some (n, rest) \<Rightarrow> map_option (Cons (TNumber n)) (tokenize rest))
      else if take 4 (c # cs) = ''true'' then map_option (Cons TTrue) (tokenize (drop 3 cs))
      else if take 5 (c # cs) = ''false'' then map_option (Cons TFalse) (tokenize (drop 4 cs))
      else if take 4 (c # cs) = ''null'' then map_option (Cons TNull) (tokenize (drop 3 cs))
      else None)"
  by pat_completeness auto
termination
proof (relation "measure length")
  fix c :: char and cs str rest :: string and x
  assume "scanString cs = Some x" "(str, rest) = x"
  then show "(rest, c # cs) \<in> measure length"
    using scanString_shorter[of cs str rest] by simp
next
  fix c :: char and cs n rest :: string and x
  assume "scanNumber (c # cs) = Some x" "(n, rest) = x"
  then show "(rest, c # cs) \<in> measure length"
    using scanNumber_shorter[of "c # cs" n rest] by simp
qed (simp_all add: le_imp_less_Suc)

text \<open>
  The parser reads the tokens from left to right with a stack of the arrays and objects
  that are still open.  \<open>PValue\<close>: a value must follow (at the start, after a comma in an
  array, after a colon).  \<open>PValueOrEnd\<close>: just after \<^verbatim>\<open>[\<close>, a value or \<^verbatim>\<open>]\<close>.
  \<open>PKeyOrEnd\<close>: just after \<^verbatim>\<open>{\<close>, a key or \<^verbatim>\<open>}\<close>.  \<open>PKey\<close>: after a comma in an
  object.  \<open>PColon\<close>: after a key.  \<open>PNext\<close>: after a value inside an array or object, a
  comma or the closing bracket.  \<open>PDone\<close>: the text's value is complete and no token may
  follow.
\<close>

datatype frame =
    FArray "json list"
  | FObject "(string \<times> json) list" string

datatype pstate = PValue | PValueOrEnd | PKeyOrEnd | PKey | PColon | PNext | PDone json

fun deliver :: "json \<Rightarrow> frame list \<Rightarrow> pstate \<times> frame list" where
  "deliver v [] = (PDone v, [])"
| "deliver v (FArray elems # stack) = (PNext, FArray (v # elems) # stack)"
| "deliver v (FObject members key # stack) = (PNext, FObject ((key, v) # members) key # stack)"

fun startValue :: "token \<Rightarrow> frame list \<Rightarrow> (pstate \<times> frame list) option" where
  "startValue TNull stack = Some (deliver JNull stack)"
| "startValue TTrue stack = Some (deliver (JBool True) stack)"
| "startValue TFalse stack = Some (deliver (JBool False) stack)"
| "startValue (TNumber n) stack = Some (deliver (JNumber n) stack)"
| "startValue (TString s) stack = Some (deliver (JString s) stack)"
| "startValue TLBracket stack = Some (PValueOrEnd, FArray [] # stack)"
| "startValue TLBrace stack = Some (PKeyOrEnd, FObject [] [] # stack)"
| "startValue _ stack = None"

fun startKey :: "token \<Rightarrow> frame list \<Rightarrow> (pstate \<times> frame list) option" where
  "startKey (TString k) (FObject members _ # stack) = Some (PColon, FObject members k # stack)"
| "startKey _ _ = None"

fun closeArray :: "frame list \<Rightarrow> (pstate \<times> frame list) option" where
  "closeArray (FArray elems # stack) = Some (deliver (JArray (rev elems)) stack)"
| "closeArray _ = None"

fun closeObject :: "frame list \<Rightarrow> (pstate \<times> frame list) option" where
  "closeObject (FObject members _ # stack) = Some (deliver (JObject (rev members)) stack)"
| "closeObject _ = None"

fun step :: "pstate \<Rightarrow> frame list \<Rightarrow> token \<Rightarrow> (pstate \<times> frame list) option" where
  "step PValue stack t = startValue t stack"
| "step PValueOrEnd stack t = (if t = TRBracket then closeArray stack else startValue t stack)"
| "step PKeyOrEnd stack t = (if t = TRBrace then closeObject stack else startKey t stack)"
| "step PKey stack t = startKey t stack"
| "step PColon stack t = (if t = TColon then Some (PValue, stack) else None)"
| "step PNext stack t =
     (case stack of
        [] \<Rightarrow> None
      | FArray _ # _ \<Rightarrow>
          if t = TComma then Some (PValue, stack)
          else if t = TRBracket then closeArray stack else None
      | FObject _ _ # _ \<Rightarrow>
          if t = TComma then Some (PKey, stack)
          else if t = TRBrace then closeObject stack else None)"
| "step (PDone _) stack t = None"

fun run :: "pstate \<Rightarrow> frame list \<Rightarrow> token list \<Rightarrow> json option" where
  "run p stack [] = (case p of PDone v \<Rightarrow> Some v | _ \<Rightarrow> None)"
| "run p stack (t # ts) =
     (case step p stack t of
        None \<Rightarrow> None
      | Some (p', stack') \<Rightarrow> run p' stack' ts)"

definition JSON_parse :: "string \<Rightarrow> json option" where
  "JSON_parse text = (case tokenize text of None \<Rightarrow> None | Some ts \<Rightarrow> run PValue [] ts)"

section \<open>The generative service\<close>

text \<open>
  \<^verbatim>\<open>text.match(/\[.*\]/s)\<close>: the dot matches every code unit and the star is greedy, so
  the match, when there is one, runs from the first \<^verbatim>\<open>[\<close> of the text to the last
  \<^verbatim>\<open>]\<close> after it.
\<close>

definition matchBracketed :: "string \<Rightarrow> string option" where
  "matchBracketed text =
     (let fromOpen = dropWhile (\<lambda>c. c \<noteq> CHR ''['') text
      in if CHR '']'' \<in> set fromOpen
         then Some (rev (dropWhile (\<lambda>c. c \<noteq> CHR '']'') (rev fromOpen)))
         else None)"

text \<open>\<^verbatim>\<open>x || d\<close> for an optional string: an absent and an empty string both give \<^verbatim>\<open>d\<close>.\<close>

definition orElse :: "string option \<Rightarrow> string \<Rightarrow> string" where
  "orElse x d = (case x of None \<Rightarrow> d | Some s \<Rightarrow> if s = [] then d else s)"

text \<open>\<^verbatim>\<open>xs.join(', ')\<close>.\<close>

fun join :: "string list \<Rightarrow> string" where
  "join [] = []"
| "join [x] = x"
| "join (x # y # ys) = x @ '', '' @ join (y # ys)"

text \<open>
  \<^verbatim>\<open>xs.slice(0, e)\<close>: a negative \<^verbatim>\<open>e\<close> counts from the end of the array, and the
  result is empty when that falls before the start.
\<close>

definition slice0 :: "'a list \<Rightarrow> int \<Rightarrow> 'a list" where
  "slice0 xs e = (if e < 0 then take (nat (int (length xs) + e)) xs else take (nat e) xs)"

record options =
  opt_url :: "string option"
  opt_title :: "string option"
  opt_description :: "string option"
  opt_teamId :: "string option"
  opt_manualTags :: "string list option"

text \<open>
  The two prompts differ, beyond their fixed wording, in the values below: the bookmark's
  content, its URL, title and description (each with its default), and for the draft the
  existing tags to prefer (none when there is no match), for the filter the candidate tags.
  The service is any function from such a request to a reply.

  A reply is what lines 252 to 263 (and 353 to 366) make of one call:
  \<^item> \<open>SendFails\<close>: \<^verbatim>\<open>client.send\<close> rejects (a transport or service error);
  \<^item> \<open>NoBody\<close>: the response has no body;
  \<^item> \<open>Malformed\<close>: reading the text out of the body throws, because the body is not JSON or
    has no \<^verbatim>\<open>content\<close> array, or the text found is neither absent nor a string, so that
    \<^verbatim>\<open>generatedText.match\<close> throws;
  \<^item> \<open>NoText\<close>: \<^verbatim>\<open>content[0]?.text\<close> is absent or another falsy value;
  \<^item> \<open>Text t\<close>: it is the string \<open>t\<close> (the empty string is falsy as well).
\<close>

datatype request =
    DraftRequest string string string string "string option"
  | FilterRequest string string string string

datatype reply = SendFails | NoBody | Malformed | NoText | Text string

type_synonym service = "request \<Rightarrow> reply"

text \<open>
  Every error that leaves \<^verbatim>\<open>generateWithLLM\<close> is a \<^verbatim>\<open>BedrockError\<close>: one of the two
  it throws itself, or the wrapper \<^verbatim>\<open>Failed to generate tags: ...\<close> that its
  \<^verbatim>\<open>catch\<close> puts around any other error; the cause is kept here to tell them apart.
\<close>

datatype cause = ServiceError | ResponseError | SyntaxError | TypeError

datatype BedrockError = EmptyResponseBody | NoTextContent | FailedToGenerate cause

fun stringElements :: "json list \<Rightarrow> string list" where
  "stringElements [] = []"
| "stringElements (JString s # xs) = s # stringElements xs"
| "stringElements (_ # xs) = stringElements xs"

definition cleanTags :: "json list \<Rightarrow> string list" where
  "cleanTags tags =
     slice0
       (filter (\<lambda>tag. length tag > 0 \<and> length tag \<le> 50)
          (map (\<lambda>tag. trim (toLowerCase tag)) (stringElements tags)))
       10"

definition draftRequest :: "string \<Rightarrow> options \<Rightarrow> string list \<Rightarrow> request" where
  "draftRequest content options existingMatches =
     DraftRequest content
       (orElse (opt_url options) ''Unknown'')
       (orElse (opt_title options) ''Unknown'')
       (orElse (opt_description options) ''No description available'')
       (if length existingMatches > 0 then Some (join existingMatches) else None)"

definition generateWithLLM ::
    "service \<Rightarrow> string \<Rightarrow> options \<Rightarrow> string list \<Rightarrow> BedrockError + string list" where
  "generateWithLLM service content options existingMatches =
     (case service (draftRequest content options existingMatches) of
        SendFails \<Rightarrow> Inl (FailedToGenerate ServiceError)
      | NoBody \<Rightarrow> Inl EmptyResponseBody
      | Malformed \<Rightarrow> Inl (FailedToGenerate ResponseError)
      | NoText \<Rightarrow> Inl NoTextContent
      | Text generatedText \<Rightarrow>
          if generatedText = [] then Inl NoTextContent
          else
            (case matchBracketed generatedText of
               None \<Rightarrow> Inr []
             | Some jsonMatch \<Rightarrow>
                 (case JSON_parse jsonMatch of
                    None \<Rightarrow> Inl (FailedToGenerate SyntaxError)
                  | Some (JArray tags) \<Rightarrow> Inr (cleanTags tags)
                  | Some _ \<Rightarrow> Inl (FailedToGenerate TypeError))))"

text \<open>
  In \<^verbatim>\<open>filterTagsBySpecificity\<close> every exit but the last returns \<^verbatim>\<open>tags\<close>: the
  explicit ones, and the \<^verbatim>\<open>catch\<close> for whatever throws in between.
\<close>

definition filterRequest :: "options \<Rightarrow> string list \<Rightarrow> request" where
  "filterRequest options candidateTags =
     FilterRequest
       (orElse (opt_url options) ''Unknown'')
       (orElse (opt_title options) ''Unknown'')
       (orElse (opt_description options) ''No description available'')
       (join candidateTags)"

definition filterTagsBySpecificity ::
    "service \<Rightarrow> string list \<Rightarrow> options \<Rightarrow> string list \<Rightarrow> string list" where
  "filterTagsBySpecificity service tags options existingMatches =
     (if length tags = 0 then tags
      else
        let protectedTags = filter (\<lambda>tag. tag \<in> set existingMatches) tags;
            candidateTags = filter (\<lambda>tag. tag \<notin> set existingMatches) tags
        in if length candidateTags = 0 then tags
           else
             (case service (filterRequest options candidateTags) of
                SendFails \<Rightarrow> tags
              | NoBody \<Rightarrow> tags
              | Malformed \<Rightarrow> tags
              | NoText \<Rightarrow> tags
              | Text generatedText \<Rightarrow>
                  if generatedText = [] then tags
                  else
                    (case matchBracketed generatedText of
                       None \<Rightarrow> tags
                     | Some jsonMatch \<Rightarrow>
                         (case JSON_parse jsonMatch of
                            None \<Rightarrow> tags
                          | Some (JArray filteredCandidateTags) \<Rightarrow>
                              let finalTags = protectedTags @ stringElements filteredCandidateTags
                              in if length finalTags = 0 then tags else finalTags
                          | Some _ \<Rightarrow> tags))))"

section \<open>Lexical matcher\<close>

text \<open>
  Two libraries are used and not part of the repository: \<^verbatim>\<open>fuzzball\<close>, whose
  \<^verbatim>\<open>ratio\<close> gives the similarity of two strings as a whole number of percent, and
  \<^verbatim>\<open>wink-lemmatizer\<close>, whose three functions give a word's lemma as a noun, a verb and
  an adjective.  They are parameters of the model.
\<close>

record libraries =
  fuzz_ratio :: "string \<Rightarrow> string \<Rightarrow> nat"
  lemmatizer_noun :: "string \<Rightarrow> string"
  lemmatizer_verb :: "string \<Rightarrow> string"
  lemmatizer_adjective :: "string \<Rightarrow> string"

definition isGrammaticalVariation :: "libraries \<Rightarrow> string \<Rightarrow> string \<Rightarrow> bool" where
  "isGrammaticalVariation L word1 word2 =
     (if word1 = word2 then True
      else
        let w1 = toLowerCase word1;
            w2 = toLowerCase word2;
            lemmas1 = [lemmatizer_noun L w1, lemmatizer_verb L w1, lemmatizer_adjective L w1];
            lemmas2 = [lemmatizer_noun L w2, lemmatizer_verb L w2, lemmatizer_adjective L w2]
        in list_ex (\<lambda>lemma1. lemma1 \<in> set lemmas2) lemmas1)"

datatype matchType = NoMatch | Perfect | GrammaticalVariation | KeywordInTag | TagInKeyword

text \<open>The chain of tests of lines 479 to 495: the match type of a keyword and a tag.\<close>

definition matchTypeOf :: "libraries \<Rightarrow> string \<Rightarrow> string \<Rightarrow> matchType" where
  "matchTypeOf L keyword tag =
     (if keyword = tag then Perfect
      else if isGrammaticalVariation L keyword tag then GrammaticalVariation
      else if length keyword > 2 \<and> includes_str tag keyword then KeywordInTag
      else if length tag > 2 \<and> includes_str keyword tag then TagInKeyword
      else NoMatch)"

fun boostOf :: "matchType \<Rightarrow> rat" where
  "boostOf NoMatch = 0"
| "boostOf Perfect = 15"
| "boostOf GrammaticalVariation = 12"
| "boostOf KeywordInTag = 8"
| "boostOf TagInKeyword = 5"

definition scoreBoost :: "libraries \<Rightarrow> string \<Rightarrow> string \<Rightarrow> rat" where
  "scoreBoost L keyword tag = boostOf (matchTypeOf L keyword tag)"

text \<open>
  \<^verbatim>\<open>tagScores\<close> is a \<^verbatim>\<open>Map\<close>, which keeps its keys in the order of their first
  insertion: an association list, updated in place for a key it has and extended at the end
  for a new one (\<^const>\<open>AList.update\<close>).  The scores are JavaScript numbers; here they are
  exact rationals.  The two \<^verbatim>\<open>logger.debug\<close> calls of the loops are kept as a log of
  events, in the order they are made.
\<close>

datatype event =
    TagMatchFound matchType string string rat rat
  | FuzzyTagMatchFound string string nat rat

record scoring =
  tagScores :: "(string \<times> rat) list"
  debugLog :: "event list"

definition matchStep :: "libraries \<Rightarrow> string \<Rightarrow> scoring \<Rightarrow> string \<Rightarrow> scoring" where
  "matchStep L keyword st tag =
     (let oldScore = (case map_of (tagScores st) tag of None \<Rightarrow> 0 | Some v \<Rightarrow> v)
      in if scoreBoost L keyword tag > 0 then
           let newScore = oldScore + scoreBoost L keyword tag
           in st\<lparr>tagScores := AList.update tag newScore (tagScores st),
                  debugLog := debugLog st @
                    [TagMatchFound (matchTypeOf L keyword tag) keyword tag oldScore newScore]\<rparr>
         else st)"

definition fuzzyStep :: "libraries \<Rightarrow> string \<Rightarrow> scoring \<Rightarrow> string \<Rightarrow> scoring" where
  "fuzzyStep L keyword st tag =
     (if map_of (tagScores st) tag = None then
        let similarity = fuzz_ratio L keyword tag
        in if similarity \<ge> 80 then
             let score = of_nat similarity / 10
             in st\<lparr>tagScores := AList.update tag score (tagScores st),
                    debugLog := debugLog st @ [FuzzyTagMatchFound keyword tag similarity score]\<rparr>
           else st
      else st)"

definition keywordStep :: "libraries \<Rightarrow> string list \<Rightarrow> scoring \<Rightarrow> string \<Rightarrow> scoring" where
  "keywordStep L existingTags st keyword =
     foldl (fuzzyStep L keyword) (foldl (matchStep L keyword) st existingTags) existingTags"

definition scoreKeywords :: "libraries \<Rightarrow> string list \<Rightarrow> string list \<Rightarrow> scoring" where
  "scoreKeywords L keywords existingTags =
     foldl (keywordStep L existingTags) \<lparr>tagScores = [], debugLog = []\<rparr> keywords"

text \<open>
  \<^verbatim>\<open>entries.sort(([, a], [, b]) => b - a)\<close>: \<^verbatim>\<open>Array.prototype.sort\<close> is stable, so
  entries of equal score keep their order.
\<close>

definition sortByScore :: "(string \<times> rat) list \<Rightarrow> (string \<times> rat) list" where
  "sortByScore entries = sort_key (\<lambda>(tag, score). - score) entries"

text \<open>
  The tag corpus store is the repository's \<^verbatim>\<open>getExistingTags\<close>: it returns the team's
  tags or throws (\<^const>\<open>None\<close>).
\<close>

type_synonym store = "string \<Rightarrow> string list option"

definition getCorpus :: "store \<Rightarrow> string option \<Rightarrow> string list" where
  "getCorpus store teamId =
     (case teamId of
        None \<Rightarrow> []
      | Some t \<Rightarrow>
          if t = [] then []
          else (case store t of None \<Rightarrow> [] | Some existingTags \<Rightarrow> existingTags))"

definition findTagsByKeywordsWithScores ::
    "libraries \<Rightarrow> store \<Rightarrow> string \<Rightarrow> string \<Rightarrow> string option \<Rightarrow> (string \<times> rat) list" where
  "findTagsByKeywordsWithScores L store title description teamId =
     (let content = title @ '' '' @ description;
          keywords = extractKeywords content;
          existingTags = getCorpus store teamId
      in slice0 (sortByScore (tagScores (scoreKeywords L keywords existingTags))) 6)"

section \<open>Hybrid reconciler and orchestrator\<close>

definition addHighScoringExistingTags ::
    "string list \<Rightarrow> (string \<times> rat) list \<Rightarrow> string list" where
  "addHighScoringExistingTags currentTags existingMatchesWithScores =
     (let highScoringMissingWithScores =
            sortByScore
              (filter (\<lambda>(tag, score). tag \<notin> set currentTags)
                 (filter (\<lambda>(tag, score). score \<ge> 15) existingMatchesWithScores));
          highScoringMissing = map fst highScoringMissingWithScores;
          additionalTags = slice0 highScoringMissing (6 - int (length currentTags))
      in currentTags @ additionalTags)"

definition generateTagsInternal ::
    "libraries \<Rightarrow> store \<Rightarrow> service \<Rightarrow> string \<Rightarrow> options \<Rightarrow> BedrockError + string list" where
  "generateTagsInternal L store service content options =
     (let existingMatchesWithScores =
            findTagsByKeywordsWithScores L store
              (orElse (opt_title options) []) (orElse (opt_description options) []) (opt_teamId options);
          existingMatches = map fst existingMatchesWithScores
      in case generateWithLLM service content options existingMatches of
           Inl e \<Rightarrow> Inl e
         | Inr initialTags \<Rightarrow>
             let filteredTags = filterTagsBySpecificity service initialTags options existingMatches
             in Inr (addHighScoringExistingTags filteredTags existingMatchesWithScores))"

definition generateTags ::
    "libraries \<Rightarrow> store \<Rightarrow> service \<Rightarrow> string \<Rightarrow> options \<Rightarrow> BedrockError + string list" where
  "generateTags L store service content options =
     (case opt_manualTags options of
        None \<Rightarrow> generateTagsInternal L store service content options
      | Some manual \<Rightarrow>
          if length manual > 0 then
            (case generateTagsInternal L store service content options of
               Inl e \<Rightarrow> Inl e
             | Inr generatedTags \<Rightarrow> Inr (slice0 (manual @ generatedTags) 8))
          else generateTagsInternal L store service content options)"

section \<open>Vocabulary of the properties\<close>

text \<open>The score a tag has in the score map, 0 when it is not there.\<close>

definition tagScore :: "scoring \<Rightarrow> string \<Rightarrow> rat" where
  "tagScore st tag = (case map_of (tagScores st) tag of None \<Rightarrow> 0 | Some v \<Rightarrow> v)"

text \<open>The tag an event of the log is about, and what the event added to its score.\<close>

fun eventTag :: "event \<Rightarrow> string" where
  "eventTag (TagMatchFound _ _ tag _ _) = tag"
| "eventTag (FuzzyTagMatchFound _ tag _ _) = tag"

fun eventGain :: "event \<Rightarrow> rat" where
  "eventGain (TagMatchFound m _ _ _ _) = boostOf m"
| "eventGain (FuzzyTagMatchFound _ _ _ score) = score"

fun isFuzzy :: "event \<Rightarrow> bool" where
  "isFuzzy (TagMatchFound _ _ _ _ _) = False"
| "isFuzzy (FuzzyTagMatchFound _ _ _ _) = True"

text \<open>
  What the events about one tag have added up to; what the loops guarantee of an event, given
  the events logged before it; and the invariant of the two loops: every event of the log is
  as the loops make it, the score map has each tag once, and a tag's score is the sum of
  what its events added.
\<close>

definition gainsFor :: "string \<Rightarrow> event list \<Rightarrow> rat" where
  "gainsFor tag events = sum_list (map eventGain (filter (\<lambda>e. eventTag e = tag) events))"

fun goodEvent :: "libraries \<Rightarrow> event list \<Rightarrow> event \<Rightarrow> bool" where
  "goodEvent L before (TagMatchFound m keyword tag oldScore newScore) =
     (m = matchTypeOf L keyword tag \<and> m \<noteq> NoMatch \<and>
      oldScore = gainsFor tag before \<and> newScore = oldScore + boostOf m)"
| "goodEvent L before (FuzzyTagMatchFound keyword tag similarity score) =
     (tag \<notin> eventTag ` set before \<and> similarity = fuzz_ratio L keyword tag \<and>
      80 \<le> similarity \<and> score = of_nat similarity / 10)"

definition wellLogged :: "libraries \<Rightarrow> event list \<Rightarrow> bool" where
  "wellLogged L events = (\<forall>i<length events. goodEvent L (take i events) (events ! i))"

definition scoresFromLog :: "scoring \<Rightarrow> bool" where
  "scoresFromLog st =
     (\<forall>t. map_of (tagScores st) t =
        (if t \<in> eventTag ` set (debugLog st) then Some (gainsFor t (debugLog st)) else None))"

definition logInv :: "libraries \<Rightarrow> scoring \<Rightarrow> bool" where
  "logInv L st = (wellLogged L (debugLog st) \<and> distinct (map fst (tagScores st)) \<and> scoresFromLog st)"

text \<open>
  Stand-ins for the two libraries, the store and the service, to run the model on concrete
  inputs: a similarity of 100 for equal strings, 83 for one misspelling and 0 otherwise; a
  noun lemma that drops a final \<^verbatim>\<open>s\<close>; a store that knows one team; a service that
  answers the draft request with one given reply and the filter request with another.
\<close>

definition sampleLibraries :: libraries where
  "sampleLibraries =
     \<lparr>fuzz_ratio =
        (\<lambda>a b. if a = b then 100 else if a = ''pyhton'' \<and> b = ''python'' then 83 else 0),
      lemmatizer_noun = (\<lambda>w. if w \<noteq> [] \<and> last w = CHR ''s'' then butlast w else w),
      lemmatizer_verb = (\<lambda>w. w),
      lemmatizer_adjective = (\<lambda>w. w)\<rparr>"

definition sampleStore :: store where
  "sampleStore team =
     (if team = ''T1'' then Some [''react'', ''hook'', ''python'', ''vue''] else None)"

fun sampleService :: "reply \<Rightarrow> reply \<Rightarrow> service" where
  "sampleService draft filtered (DraftRequest _ _ _ _ _) = draft"
| "sampleService draft filtered (FilterRequest _ _ _ _) = filtered"

definition noOptions :: options where
  "noOptions =
     \<lparr>opt_url = None, opt_title = None, opt_description = None, opt_teamId = None,
      opt_manualTags = None\<rparr>"

section \<open>Basic facts\<close>

lemma slice0_nonneg [simp]: "0 \<le> e \<Longrightarrow> slice0 xs e = take (nat e) xs"
  by (simp add: slice0_def)

lemma sortByScore_sorted: "sorted_wrt (\<lambda>a b. snd b \<le> snd a) (sortByScore xs)"
proof -
  have "sorted (map (\<lambda>(tag, score). - score) (sortByScore xs))"
    unfolding sortByScore_def by (rule sorted_sort_key)
  then show ?thesis
    by (simp add: sorted_map sorted_wrt_iff_nth_less case_prod_beta)
qed

lemma sortByScore_mset: "mset (sortByScore xs) = mset xs"
  by (simp add: sortByScore_def)

lemma sortByScore_set [simp]: "set (sortByScore xs) = set xs"
  by (simp add: sortByScore_def)

lemma sortByScore_length [simp]: "length (sortByScore xs) = length xs"
  by (simp add: sortByScore_def)

lemma sortByScore_stable:
  "filter (\<lambda>e. snd e = v) (sortByScore xs) = filter (\<lambda>e. snd e = v) xs"
proof -
  have "filter (\<lambda>e. (\<lambda>(tag, score). - score) e = - v) (sortByScore xs)
      = filter (\<lambda>e. (\<lambda>(tag, score). - score) e = - v) xs"
    unfolding sortByScore_def by (rule sort_key_stable)
  then show ?thesis by (simp add: case_prod_beta)
qed

lemma foldl_keywordStep_Nil: "foldl (keywordStep L []) st kws = st"
  by (induction kws arbitrary: st) (simp_all add: keywordStep_def)

section \<open>The corpus store fails\<close>

text \<open>
  Claim C9.  When \<^verbatim>\<open>teamId\<close> is absent, or the store's \<^verbatim>\<open>getExistingTags\<close> throws for
  it, the lexical scorer goes on with an empty corpus and returns the empty list.  The scorer
  has no other call that can throw: its result is a plain list, for every title and
  description.
\<close>

theorem C9_corpus_failure_swallowed:
  "teamId = None \<or> (\<exists>t. teamId = Some t \<and> store t = None) \<Longrightarrow>
     getCorpus store teamId = [] \<and>
     findTagsByKeywordsWithScores L store title description teamId = []"
  by (auto simp: findTagsByKeywordsWithScores_def getCorpus_def scoreKeywords_def
      foldl_keywordStep_Nil sortByScore_def slice0_def)

theorem C9_corpus_failure_swallowed_witness:
  "sampleStore ''T9'' = None \<and>
   findTagsByKeywordsWithScores sampleLibraries sampleStore
     ''React Hooks Tutorial'' [] (Some ''T9'') = []"
  using C9_corpus_failure_swallowed
    [of "Some ''T9''" sampleStore sampleLibraries "''React Hooks Tutorial''" "[]"]
  by (simp add: sampleStore_def)

section \<open>Hybrid reconciler\<close>

text \<open>
  Claim C2, as amended.  For current tags of length at most 6, the reconciler returns at
  most 6 tags: the current tags followed by the first \<open>6 - length currentTags\<close> of the
  existing tags with a score of 15 or more that are not among the current tags, in
  descending order of score (the sort reorders those entries and nothing else).
\<close>

theorem C2_reconcile_amended:
  "length currentTags \<le> 6 \<Longrightarrow>
     length (addHighScoringExistingTags currentTags scored) \<le> 6 \<and>
     addHighScoringExistingTags currentTags scored =
       currentTags @
       map fst (take (6 - length currentTags)
         (sortByScore (filter (\<lambda>(tag, score). score \<ge> 15 \<and> tag \<notin> set currentTags) scored))) \<and>
     sorted_wrt (\<lambda>a b. snd b \<le> snd a)
       (sortByScore (filter (\<lambda>(tag, score). score \<ge> 15 \<and> tag \<notin> set currentTags) scored)) \<and>
     mset (sortByScore (filter (\<lambda>(tag, score). score \<ge> 15 \<and> tag \<notin> set currentTags) scored)) =
       mset (filter (\<lambda>(tag, score). score \<ge> 15 \<and> tag \<notin> set currentTags) scored)"
proof -
  assume le: "length currentTags \<le> 6"
  have n: "nat (6 - int (length currentTags)) = 6 - length currentTags" using le by simp
  have eq: "addHighScoringExistingTags currentTags scored =
       currentTags @
       map fst (take (6 - length currentTags)
         (sortByScore (filter (\<lambda>(tag, score). score \<ge> 15 \<and> tag \<notin> set currentTags) scored)))"
    using le
    by (simp add: addHighScoringExistingTags_def Let_def n take_map split_def conj_commute)
  have "length (addHighScoringExistingTags currentTags scored) \<le> 6"
    unfolding eq using le by simp
  with eq show ?thesis by (simp add: sortByScore_sorted sortByScore_mset)
qed

theorem C2_reconcile_amended_witness:
  "addHighScoringExistingTags [''api'', ''guide'', ''docs'', ''web'']
     [(''react'', 30), (''hook'', 12), (''python'', 15), (''vue'', 20), (''web'', 40)]
   = [''api'', ''guide'', ''docs'', ''web'', ''react'', ''vue'']"
proof -
  have h: "length [''api'', ''guide'', ''docs'', ''web''] \<le> 6" by simp
  from C2_reconcile_amended
    [OF h, of "[(''react'', 30), (''hook'', 12), (''python'', 15), (''vue'', 20), (''web'', 40)]"]
  have "addHighScoringExistingTags [''api'', ''guide'', ''docs'', ''web'']
          [(''react'', 30), (''hook'', 12), (''python'', 15), (''vue'', 20), (''web'', 40)] =
        [''api'', ''guide'', ''docs'', ''web''] @
        map fst (take (6 - length [''api'', ''guide'', ''docs'', ''web''])
          (sortByScore
             (filter (\<lambda>(tag, score). score \<ge> 15 \<and> tag \<notin> set [''api'', ''guide'', ''docs'', ''web''])
                [(''react'', 30), (''hook'', 12), (''python'', 15), (''vue'', 20), (''web'', 40)])))"
    by blast
  also have "\<dots> = [''api'', ''guide'', ''docs'', ''web'', ''react'', ''vue'']"
    by code_simp
  finally show ?thesis .
qed

text \<open>
  The claim as stated fails: the reconciler never shortens the tags it is given, so seven
  current tags come back as seven.
\<close>

theorem C2_reconcile_counterexample:
  "\<not> length (addHighScoringExistingTags
        [''api'', ''guide'', ''docs'', ''web'', ''css'', ''html'', ''design''] []) \<le> 6"
  by code_simp

section \<open>Specificity filter\<close>

text \<open>
  Claim C3, as amended.  For non-empty draft tags, with \<open>reply\<close> the service's answer to the
  filter request: when the call fails, the body is missing or malformed, the text is missing
  or empty, has no bracketed region, or its bracketed region is not JSON, the filter returns
  the draft tags unchanged.  When the region is a JSON array, the filter returns the
  protected tags followed by the array's strings, and falls back to the draft tags only when
  that list is empty.  In every case the result is non-empty.
\<close>

theorem C3_filter_amended:
  "tags \<noteq> [] \<Longrightarrow>
   reply = service (filterRequest options (filter (\<lambda>tag. tag \<notin> set existingMatches) tags)) \<Longrightarrow>
     ((reply = SendFails \<or> reply = NoBody \<or> reply = Malformed \<or> reply = NoText \<or>
       (\<exists>t. reply = Text t \<and>
          (t = [] \<or> matchBracketed t = None \<or>
           (\<exists>m. matchBracketed t = Some m \<and> JSON_parse m = None)))) \<longrightarrow>
        filterTagsBySpecificity service tags options existingMatches = tags) \<and>
     (\<forall>t m kept. reply = Text t \<and> t \<noteq> [] \<and> matchBracketed t = Some m \<and>
          JSON_parse m = Some (JArray kept) \<and>
          filter (\<lambda>tag. tag \<notin> set existingMatches) tags \<noteq> [] \<longrightarrow>
        filterTagsBySpecificity service tags options existingMatches =
          (if filter (\<lambda>tag. tag \<in> set existingMatches) tags @ stringElements kept = [] then tags
           else filter (\<lambda>tag. tag \<in> set existingMatches) tags @ stringElements kept)) \<and>
     filterTagsBySpecificity service tags options existingMatches \<noteq> []"
  by (auto simp: filterTagsBySpecificity_def Let_def split: reply.splits option.splits json.splits)

theorem C3_filter_amended_witness:
  \<open>filterTagsBySpecificity (sampleService NoText (Text ''Keep these: []''))
      [''good'', ''clean''] noOptions [''react''] = [''good'', ''clean''] \<and>
    filterTagsBySpecificity (sampleService NoText SendFails)
      [''react'', ''good''] noOptions [''react''] = [''react'', ''good''] \<and>
    filterTagsBySpecificity (sampleService NoText (Text ''["hooks", 7]''))
      [''react'', ''good'', ''hooks''] noOptions [''react''] = [''react'', ''hooks'']\<close>
proof -
  have a: "[''good'', ''clean''] \<noteq> []" and b: "[''react'', ''good''] \<noteq> []"
    and c: "[''react'', ''good'', ''hooks''] \<noteq> []" by simp_all
  have p1: \<open>matchBracketed ''Keep these: []'' = Some ''[]''\<close> by code_simp
  have p2: \<open>JSON_parse ''[]'' = Some (JArray [])\<close> by code_simp
  have p3: \<open>matchBracketed ''["hooks", 7]'' = Some ''["hooks", 7]''\<close> by code_simp
  have p4: \<open>JSON_parse ''["hooks", 7]'' = Some (JArray [JString ''hooks'', JNumber ''7''])\<close> by code_simp
  show ?thesis
    using C3_filter_amended [OF a refl, of "sampleService NoText (Text ''Keep these: []'')" noOptions "[''react'']"]
      C3_filter_amended [OF b refl, of "sampleService NoText SendFails" noOptions "[''react'']"]
      C3_filter_amended [OF c refl, of \<open>sampleService NoText (Text ''["hooks", 7]'')\<close> noOptions "[''react'']"]
      p1 p2 p3 p4
    by (simp add: filterRequest_def)
qed

text \<open>
  The claim as stated fails where the service returns a valid empty array and a draft tag is
  protected: the filter returns the protected tag alone, not the draft tags.
\<close>

theorem C3_filter_counterexample:
  \<open>JSON_parse ''[]'' = Some (JArray []) \<and>
    filterTagsBySpecificity (sampleService NoText (Text ''[]''))
      [''react'', ''good''] noOptions [''react''] = [''react'']\<close>
  by code_simp

section \<open>Draft generation\<close>

text \<open>
  Claim C4, as amended.  With \<open>reply\<close> the service's answer to the draft request: a
  non-empty text without a bracketed region gives the empty list; a bracketed region that is
  not JSON is fatal, as are a failed call, a missing body, a malformed response and a missing
  or empty text.  The stage returns a list exactly when the text is non-empty and either has
  no bracketed region or has one that parses as a JSON array.
\<close>

theorem C4_draft_amended:
  "reply = service (draftRequest content options existingMatches) \<Longrightarrow>
     (\<forall>t. reply = Text t \<and> t \<noteq> [] \<and> matchBracketed t = None \<longrightarrow>
        generateWithLLM service content options existingMatches = Inr []) \<and>
     (\<forall>t m. reply = Text t \<and> t \<noteq> [] \<and> matchBracketed t = Some m \<and> JSON_parse m = None \<longrightarrow>
        generateWithLLM service content options existingMatches = Inl (FailedToGenerate SyntaxError)) \<and>
     (reply = SendFails \<longrightarrow>
        generateWithLLM service content options existingMatches = Inl (FailedToGenerate ServiceError)) \<and>
     (reply = NoBody \<longrightarrow>
        generateWithLLM service content options existingMatches = Inl EmptyResponseBody) \<and>
     (reply = NoText \<or> reply = Text [] \<longrightarrow>
        generateWithLLM service content options existingMatches = Inl NoTextContent) \<and>
     (reply = Malformed \<longrightarrow>
        generateWithLLM service content options existingMatches = Inl (FailedToGenerate ResponseError)) \<and>
     (\<forall>tags. generateWithLLM service content options existingMatches = Inr tags \<longleftrightarrow>
        (\<exists>t. reply = Text t \<and> t \<noteq> [] \<and>
           (matchBracketed t = None \<and> tags = [] \<or>
            (\<exists>m elems. matchBracketed t = Some m \<and> JSON_parse m = Some (JArray elems) \<and>
               tags = cleanTags elems))))"
  by (auto simp: generateWithLLM_def split: reply.splits option.splits json.splits)

theorem C4_draft_amended_witness:
  \<open>generateWithLLM (sampleService (Text ''Sorry, I cannot help'') NoText) ''content'' noOptions []
      = Inr [] \<and>
    generateWithLLM (sampleService (Text ''Tags: [react, hooks]'') NoText) ''content'' noOptions []
      = Inl (FailedToGenerate SyntaxError) \<and>
    generateWithLLM (sampleService SendFails NoText) ''content'' noOptions []
      = Inl (FailedToGenerate ServiceError)\<close>
proof -
  have p1: \<open>matchBracketed ''Sorry, I cannot help'' = None\<close> by code_simp
  have p2: \<open>matchBracketed ''Tags: [react, hooks]'' = Some ''[react, hooks]''\<close> by code_simp
  have p3: \<open>JSON_parse ''[react, hooks]'' = None\<close> by code_simp
  show ?thesis
    using C4_draft_amended [OF refl, of "sampleService (Text ''Sorry, I cannot help'') NoText" "''content''" noOptions "[]"]
      C4_draft_amended [OF refl, of "sampleService (Text ''Tags: [react, hooks]'') NoText" "''content''" noOptions "[]"]
      C4_draft_amended [OF refl, of "sampleService SendFails NoText" "''content''" noOptions "[]"]
      p1 p2 p3
    by (simp add: draftRequest_def)
qed

text \<open>
  The claim as stated fails on a bracketed region that is not JSON: \<^verbatim>\<open>JSON.parse\<close>
  throws inside the \<^verbatim>\<open>try\<close>, and the \<^verbatim>\<open>catch\<close> rethrows it as a
  \<^verbatim>\<open>BedrockError\<close>.
\<close>

theorem C4_draft_counterexample:
  \<open>matchBracketed ''Tags: [react, hooks]'' = Some ''[react, hooks]'' \<and>
    JSON_parse ''[react, hooks]'' = None \<and>
    generateWithLLM (sampleService (Text ''Tags: [react, hooks]'') NoText) ''content'' noOptions []
      = Inl (FailedToGenerate SyntaxError)\<close>
  by code_simp

section \<open>Orchestrator\<close>

lemma cleanTags_length: "length (cleanTags elems) \<le> 10"
  by (simp add: cleanTags_def)

lemma generateWithLLM_length:
  "generateWithLLM service content options existingMatches = Inr tags \<Longrightarrow> length tags \<le> 10"
  by (auto simp: generateWithLLM_def cleanTags_length
      split: reply.splits option.splits json.splits if_splits)

lemma addHighScoring_length:
  "length currentTags \<le> 6 \<Longrightarrow> length (addHighScoringExistingTags currentTags scored) \<le> 6"
  by (simp add: addHighScoringExistingTags_def Let_def)

text \<open>
  Claim C1, as amended.  With non-empty manual tags, the result is the first 8 entries of
  the manual tags followed by the generated tags, with nothing removed: when there are at
  most 8 manual tags they all appear, first and in their order, followed by as many generated
  tags as fit.  An error of the pipeline is passed on.
\<close>

theorem C1_manual_tags_amended:
  assumes "opt_manualTags options = Some manual" and "manual \<noteq> []"
  shows "(\<forall>generated. generateTagsInternal L store service content options = Inr generated \<longrightarrow>
            generateTags L store service content options = Inr (take 8 (manual @ generated)) \<and>
            (length manual \<le> 8 \<longrightarrow>
               take 8 (manual @ generated) = manual @ take (8 - length manual) generated \<and>
               set manual \<subseteq> set (take 8 (manual @ generated)))) \<and>
         (\<forall>e. generateTagsInternal L store service content options = Inl e \<longrightarrow>
            generateTags L store service content options = Inl e)"
  using assms by (auto simp: generateTags_def)

theorem C1_manual_tags_amended_witness:
  \<open>generateTags sampleLibraries sampleStore
      (sampleService (Text ''["react", "hooks"]'') NoText) ''content''
      (noOptions\<lparr>opt_manualTags := Some [''React'', ''Frontend'']\<rparr>)
    = Inr [''React'', ''Frontend'', ''react'', ''hooks'']\<close>
proof -
  have m: "opt_manualTags (noOptions\<lparr>opt_manualTags := Some [''React'', ''Frontend'']\<rparr>)
             = Some [''React'', ''Frontend'']" by simp
  have ne: "[''React'', ''Frontend''] \<noteq> []" by simp
  have g: \<open>generateTagsInternal sampleLibraries sampleStore
      (sampleService (Text ''["react", "hooks"]'') NoText) ''content''
      (noOptions\<lparr>opt_manualTags := Some [''React'', ''Frontend'']\<rparr>) = Inr [''react'', ''hooks'']\<close>
    by code_simp
  show ?thesis
    using C1_manual_tags_amended [OF m ne, of sampleLibraries sampleStore
        \<open>sampleService (Text ''["react", "hooks"]'') NoText\<close> "''content''"] g
    by simp
qed

text \<open>
  The claim as stated fails: \<^verbatim>\<open>generateTags\<close> removes no duplicate.  The manual tag
  \<^verbatim>\<open>React\<close> and the generated tag \<^verbatim>\<open>react\<close> both appear, although they are equal once
  made lowercase and trimmed.
\<close>

theorem C1_manual_tags_counterexample:
  \<open>generateTags sampleLibraries sampleStore
      (sampleService (Text ''["react"]'') NoText) ''content''
      (noOptions\<lparr>opt_manualTags := Some [''React'']\<rparr>)
    = Inr [''React'', ''react''] \<and>
    trim (toLowerCase ''React'') = trim (toLowerCase ''react'')\<close>
  by code_simp

text \<open>
  Claim C5, as amended.  The result has at most 8 tags when the manual tags are non-empty.
  When they are absent or empty the result is the reconciler's output for the filtered
  draft: the draft has at most 10 tags, and the result has at most 6 whenever the filtered
  draft has at most 6.
\<close>

theorem C5_length_amended:
  assumes "generateTags L store service content options = Inr tags"
    and "scored = findTagsByKeywordsWithScores L store
            (orElse (opt_title options) []) (orElse (opt_description options) [])
            (opt_teamId options)"
  shows "(\<forall>manual. opt_manualTags options = Some manual \<and> manual \<noteq> [] \<longrightarrow> length tags \<le> 8) \<and>
         (opt_manualTags options = None \<or> opt_manualTags options = Some [] \<longrightarrow>
            (\<exists>initialTags.
               generateWithLLM service content options (map fst scored) = Inr initialTags \<and>
               length initialTags \<le> 10 \<and>
               tags = addHighScoringExistingTags
                        (filterTagsBySpecificity service initialTags options (map fst scored)) scored \<and>
               (length (filterTagsBySpecificity service initialTags options (map fst scored)) \<le> 6
                  \<longrightarrow> length tags \<le> 6)))"
proof (intro conjI allI impI)
  fix manual assume "opt_manualTags options = Some manual \<and> manual \<noteq> []"
  with assms(1) show "length tags \<le> 8"
    by (auto simp: generateTags_def split: sum.splits)
next
  assume "opt_manualTags options = None \<or> opt_manualTags options = Some []"
  with assms(1) have "generateTagsInternal L store service content options = Inr tags"
    by (auto simp: generateTags_def)
  then obtain initialTags where
    i: "generateWithLLM service content options (map fst scored) = Inr initialTags"
    and t: "tags = addHighScoringExistingTags
                        (filterTagsBySpecificity service initialTags options (map fst scored)) scored"
    unfolding generateTagsInternal_def Let_def assms(2)[symmetric]
    by (auto split: sum.splits)
  from i have "length initialTags \<le> 10" by (rule generateWithLLM_length)
  with i t show "\<exists>initialTags.
               generateWithLLM service content options (map fst scored) = Inr initialTags \<and>
               length initialTags \<le> 10 \<and>
               tags = addHighScoringExistingTags
                        (filterTagsBySpecificity service initialTags options (map fst scored)) scored \<and>
               (length (filterTagsBySpecificity service initialTags options (map fst scored)) \<le> 6
                  \<longrightarrow> length tags \<le> 6)"
    by (auto simp: addHighScoring_length)
qed

theorem C5_length_amended_witness:
  \<open>length [''React'', ''react'', ''hooks''] \<le> 8 \<and>
    generateTags sampleLibraries sampleStore
      (sampleService (Text ''["react", "hooks"]'') NoText) ''content''
      (noOptions\<lparr>opt_manualTags := Some [''React'']\<rparr>) = Inr [''React'', ''react'', ''hooks''] \<and>
    generateTags sampleLibraries sampleStore
      (sampleService (Text ''["react", "hooks"]'') NoText) ''content'' noOptions
      = Inr [''react'', ''hooks'']\<close>
proof -
  have g1: \<open>generateTags sampleLibraries sampleStore
      (sampleService (Text ''["react", "hooks"]'') NoText) ''content''
      (noOptions\<lparr>opt_manualTags := Some [''React'']\<rparr>) = Inr [''React'', ''react'', ''hooks'']\<close>
    by code_simp
  have g2: \<open>generateTags sampleLibraries sampleStore
      (sampleService (Text ''["react", "hooks"]'') NoText) ''content'' noOptions
      = Inr [''react'', ''hooks'']\<close>
    by code_simp
  show ?thesis
    using C5_length_amended [OF g1 refl] C5_length_amended [OF g2 refl] g1 g2
    by simp
qed

text \<open>
  The claim as stated fails: without manual tags, a draft of seven tags that the filter
  keeps comes back as seven tags.
\<close>

theorem C5_length_counterexample:
  \<open>generateTags sampleLibraries sampleStore
      (sampleService (Text ''["aws", "lambda", "docker", "linux", "bash", "git", "cdk"]'')
                     (Text ''["aws", "lambda", "docker", "linux", "bash", "git", "cdk"]''))
      ''content'' noOptions
    = Inr [''aws'', ''lambda'', ''docker'', ''linux'', ''bash'', ''git'', ''cdk''] \<and>
    \<not> length [''aws'', ''lambda'', ''docker'', ''linux'', ''bash'', ''git'', ''cdk''] \<le> 6\<close>
  by code_simp


section \<open>Keyword extraction\<close>

lemma split_cong:
  "(\<And>c. c \<in> set s \<Longrightarrow> sep c = sep' c) \<Longrightarrow> split sep s = split sep' s"
proof (induction sep s rule: split.induct)
  case (1 sep s)
  let ?rest = "dropWhile (\<lambda>c. \<not> sep c) s"
  have tw: "takeWhile (\<lambda>c. \<not> sep' c) s = takeWhile (\<lambda>c. \<not> sep c) s"
    using "1.prems" by (intro takeWhile_cong) auto
  have dw: "dropWhile (\<lambda>c. \<not> sep' c) s = ?rest"
    using "1.prems" by (intro dropWhile_cong) auto
  have unfold_sep: "split sep s =
      (if ?rest = [] then [takeWhile (\<lambda>c. \<not> sep c) s]
       else takeWhile (\<lambda>c. \<not> sep c) s # split sep (dropWhile sep ?rest))"
    by (subst split.simps) (simp only: Let_def)
  have unfold_sep': "split sep' s =
      (if ?rest = [] then [takeWhile (\<lambda>c. \<not> sep c) s]
       else takeWhile (\<lambda>c. \<not> sep c) s # split sep' (dropWhile sep' ?rest))"
    by (subst split.simps) (simp only: Let_def tw dw)
  show ?case
  proof (cases "?rest = []")
    case True
    show ?thesis unfolding unfold_sep unfold_sep' using True by simp
  next
    case False
    have sub: "set ?rest \<subseteq> set s" by (auto dest: set_dropWhileD)
    have dd: "dropWhile sep' ?rest = dropWhile sep ?rest"
      using "1.prems" sub by (intro dropWhile_cong) auto
    have sub2: "set (dropWhile sep ?rest) \<subseteq> set s"
      using sub by (auto dest: set_dropWhileD)
    have "\<And>c. c \<in> set (dropWhile sep ?rest) \<Longrightarrow> sep c = sep' c"
      using "1.prems" sub2 by auto
    then have ih: "split sep (dropWhile sep ?rest) = split sep' (dropWhile sep ?rest)"
      by (rule "1.IH"[OF refl refl False])
    show ?thesis unfolding unfold_sep unfold_sep' dd ih using False by simp
  qed
qed

text \<open>
  Away from the characters that the range \<^verbatim>\<open>/-_\<close> decides, a lowercased character is a
  separator of the code exactly when the class lists it.
\<close>

lemma lowered_separator:
  assumes "\<not> inRangeOnly c"
  shows "isSeparator (lowerChar c) = isListedSeparator (lowerChar c)"
proof -
  define n where "n = (of_char c :: nat)"
  have n: "n < 256" by (simp add: n_def)
  have e: "\<And>d. (c = d) \<longleftrightarrow> (n = of_char d)" by (auto simp: n_def)
  show ?thesis
  proof (cases "(65 \<le> n \<and> n \<le> 90) \<or> (192 \<le> n \<and> n \<le> 222 \<and> n \<noteq> 215)")
    case True
    then have l: "lowerChar c = char_of (n + 32)" by (simp add: lowerChar_def n_def)
    have m: "take_bit 8 (n + 32) = n + 32" using True by (auto simp: take_bit_nat_eq_self_iff)
    have o: "(n + 32) mod 256 = n + 32" using True by auto
    show ?thesis
      unfolding l isSeparator_def isListedSeparator_def isWhiteSpace_def
      using True by (simp add: o char_of_eq_iff m) auto
  next
    case False
    then have l: "lowerChar c = c" by (auto simp: lowerChar_def n_def Let_def)
    have h: "n \<noteq> 45" "\<not> (48 \<le> n \<and> n \<le> 57)" "n \<noteq> 59" "n \<noteq> 60" "n \<noteq> 61" "n \<noteq> 62"
      "n \<noteq> 64" "n \<noteq> 91" "n \<noteq> 92" "n \<noteq> 93" "n \<noteq> 94"
      using assms unfolding inRangeOnly_def isDigit_def by (simp_all add: e n_def[symmetric])
    have k: "(47 \<le> n \<and> n \<le> 95) \<longleftrightarrow> (n = 47 \<or> n = 58 \<or> n = 63 \<or> n = 95)"
      using h False by presburger
    show ?thesis
      unfolding l isSeparator_def isListedSeparator_def isWhiteSpace_def
      by (simp add: e n_def[symmetric] k) blast
  qed
qed

text \<open>
  Claim C6, as amended.  For an input without a dash, a digit or one of
  \<^verbatim>\<open>; < = > @ [ \ ] ^\<close>, the keywords are the pieces obtained by lowercasing the input
  and splitting it at white space and at the characters \<^verbatim>\<open>/ _ . , ! ? ( ) :\<close>, without
  the pieces of length at most 2, the stop words and the purely numeric pieces.  The empty
  input has no keyword.
\<close>

theorem C6_extractKeywords_amended:
  assumes "\<forall>c\<in>set text. \<not> inRangeOnly c"
  shows "extractKeywords text =
           filter (\<lambda>word. \<not> isNumber word)
             (filter (\<lambda>word. word \<notin> set stopWords)
                (filter (\<lambda>word. length word > 2)
                   (split isListedSeparator (toLowerCase text))))
         \<and> extractKeywords [] = []"
proof -
  have "split isSeparator (toLowerCase text) = split isListedSeparator (toLowerCase text)"
    using assms by (intro split_cong) (auto simp: toLowerCase_def lowered_separator)
  moreover have "extractKeywords [] = []"
    by code_simp
  ultimately show ?thesis by (simp add: extractKeywords_def)
qed

theorem C6_extractKeywords_amended_witness:
  "list_all (\<lambda>c. \<not> inRangeOnly c) ''Node.js & Express: A Guide'' \<and>
   extractKeywords ''Node.js & Express: A Guide'' = [''node'', ''express'', ''guide'']"
proof -
  have h: "\<forall>c\<in>set ''Node.js & Express: A Guide''. \<not> inRangeOnly c" by code_simp
  have v: "filter (\<lambda>word. \<not> isNumber word)
             (filter (\<lambda>word. word \<notin> set stopWords)
                (filter (\<lambda>word. length word > 2)
                   (split isListedSeparator (toLowerCase ''Node.js & Express: A Guide''))))
           = [''node'', ''express'', ''guide'']" by code_simp
  show ?thesis using C6_extractKeywords_amended [OF h] v h
    by (simp add: list_all_iff)
qed

text \<open>
  The claim as stated fails.  The colon, which the class of the code lists and the
  specification's set does not, is a separator: the code gives \<^verbatim>\<open>express\<close> where the
  set of the specification gives \<^verbatim>\<open>express:\<close>.
\<close>

theorem C6_extractKeywords_counterexample:
  "extractKeywords ''Express: A Guide'' = [''express'', ''guide''] \<and>
   extractKeywords_spec ''Express: A Guide'' = [''express:'', ''guide'']"
  by code_simp

text \<open>
  The range \<^verbatim>\<open>/-_\<close> makes the code differ from the specification's set in two more
  ways, on which the amended claim is silent: the dash does not separate, and every digit
  does, so that no keyword ever holds a digit and the last filter of \<^verbatim>\<open>extractKeywords\<close>
  (drop the purely numeric tokens) never drops anything.
\<close>

lemma extractKeywords_range:
  "extractKeywords ''web-dev guide es2015'' = [''web-dev'', ''guide''] \<and>
   extractKeywords_spec ''web-dev guide es2015'' = [''web'', ''dev'', ''guide'', ''es2015'']"
  by code_simp

section \<open>The score map and its log\<close>

lemma boostOf_nonneg: "0 \<le> boostOf m"
  by (cases m) simp_all

lemma boostOf_pos_iff: "0 < boostOf m \<longleftrightarrow> m \<noteq> NoMatch"
  by (cases m) simp_all

lemma scoreBoost_nonneg: "0 \<le> scoreBoost L k t"
  by (simp add: scoreBoost_def boostOf_nonneg)

lemma gainsFor_Nil [simp]: "gainsFor t [] = 0"
  by (simp add: gainsFor_def)

lemma gainsFor_snoc:
  "gainsFor t (events @ [e]) = gainsFor t events + (if eventTag e = t then eventGain e else 0)"
  by (simp add: gainsFor_def)

lemma gainsFor_no_event: "t \<notin> eventTag ` set events \<Longrightarrow> gainsFor t events = 0"
proof -
  assume "t \<notin> eventTag ` set events"
  then have "filter (\<lambda>e. eventTag e = t) events = []"
    by (auto simp: filter_empty_conv)
  then show ?thesis by (simp add: gainsFor_def)
qed

lemma wellLogged_Nil [simp]: "wellLogged L []"
  by (simp add: wellLogged_def)

lemma wellLogged_snoc:
  "wellLogged L (events @ [e]) \<longleftrightarrow> wellLogged L events \<and> goodEvent L events e"
proof
  assume w: "wellLogged L (events @ [e])"
  have "goodEvent L (take i events) (events ! i)" if "i < length events" for i
  proof -
    from that w have "goodEvent L (take i (events @ [e])) ((events @ [e]) ! i)"
      by (simp add: wellLogged_def)
    with that show ?thesis by (simp add: nth_append)
  qed
  moreover have "goodEvent L (take (length events) (events @ [e])) ((events @ [e]) ! length events)"
    using w[unfolded wellLogged_def, rule_format, of "length events"] by simp
  then have "goodEvent L events e" by simp
  ultimately show "wellLogged L events \<and> goodEvent L events e"
    by (simp add: wellLogged_def)
next
  assume a: "wellLogged L events \<and> goodEvent L events e"
  show "wellLogged L (events @ [e])"
    unfolding wellLogged_def
  proof (intro allI impI)
    fix i assume "i < length (events @ [e])"
    then consider "i < length events" | "i = length events" by fastforce
    then show "goodEvent L (take i (events @ [e])) ((events @ [e]) ! i)"
    proof cases
      case 1
      with a show ?thesis by (simp add: wellLogged_def nth_append)
    next
      case 2
      with a show ?thesis by simp
    qed
  qed
qed

lemma wellLogged_split:
  "wellLogged L (before @ e # after) \<Longrightarrow> goodEvent L before e"
proof -
  assume w: "wellLogged L (before @ e # after)"
  have "goodEvent L (take (length before) (before @ e # after)) ((before @ e # after) ! length before)"
    using w[unfolded wellLogged_def, rule_format, of "length before"] by simp
  then show ?thesis by simp
qed

lemma logInv_oldScore:
  "logInv L st \<Longrightarrow>
   (case map_of (tagScores st) tag of None \<Rightarrow> 0 | Some v \<Rightarrow> v) = gainsFor tag (debugLog st)"
  by (simp add: logInv_def scoresFromLog_def gainsFor_no_event)

lemma logInv_append:
  assumes inv: "logInv L st" and good: "goodEvent L (debugLog st) e"
    and new: "newScore = gainsFor (eventTag e) (debugLog st) + eventGain e"
  shows "logInv L (st\<lparr>tagScores := AList.update (eventTag e) newScore (tagScores st),
                      debugLog := debugLog st @ [e]\<rparr>)"
proof -
  have "wellLogged L (debugLog st @ [e])"
    using inv good by (simp add: logInv_def wellLogged_snoc)
  moreover have "distinct (map fst (AList.update (eventTag e) newScore (tagScores st)))"
    using inv by (simp add: logInv_def distinct_update)
  moreover have "scoresFromLog (st\<lparr>tagScores := AList.update (eventTag e) newScore (tagScores st),
                      debugLog := debugLog st @ [e]\<rparr>)"
    using inv new
    by (auto simp: logInv_def scoresFromLog_def update_conv' gainsFor_snoc gainsFor_no_event)
  ultimately show ?thesis by (simp add: logInv_def)
qed

lemma logInv_matchStep: "logInv L st \<Longrightarrow> logInv L (matchStep L keyword st tag)"
proof -
  assume inv: "logInv L st"
  show ?thesis
  proof (cases "scoreBoost L keyword tag > 0")
    case False
    then show ?thesis using inv by (simp add: matchStep_def Let_def)
  next
    case True
    let ?old = "gainsFor tag (debugLog st)"
    let ?e = "TagMatchFound (matchTypeOf L keyword tag) keyword tag ?old
                (?old + scoreBoost L keyword tag)"
    have ne: "matchTypeOf L keyword tag \<noteq> NoMatch"
      using True by (simp add: scoreBoost_def boostOf_pos_iff)
    have good: "goodEvent L (debugLog st) ?e"
      using ne by (simp add: scoreBoost_def)
    have "logInv L (st\<lparr>tagScores := AList.update (eventTag ?e) (?old + scoreBoost L keyword tag) (tagScores st),
                      debugLog := debugLog st @ [?e]\<rparr>)"
      by (rule logInv_append[OF inv good]) (simp add: scoreBoost_def)
    then show ?thesis
      using True by (simp add: matchStep_def Let_def logInv_oldScore[OF inv])
  qed
qed

lemma logInv_fuzzyStep: "logInv L st \<Longrightarrow> logInv L (fuzzyStep L keyword st tag)"
proof -
  assume inv: "logInv L st"
  show ?thesis
  proof (cases "map_of (tagScores st) tag = None \<and> 80 \<le> fuzz_ratio L keyword tag")
    case False
    then show ?thesis using inv by (auto simp: fuzzyStep_def Let_def)
  next
    case True
    let ?sim = "fuzz_ratio L keyword tag"
    let ?e = "FuzzyTagMatchFound keyword tag ?sim (of_nat ?sim / 10)"
    have fresh: "tag \<notin> eventTag ` set (debugLog st)"
      using True inv by (auto simp: logInv_def scoresFromLog_def split: if_splits)
    have good: "goodEvent L (debugLog st) ?e"
      using True fresh by simp
    have "logInv L (st\<lparr>tagScores := AList.update (eventTag ?e) (of_nat ?sim / 10) (tagScores st),
                      debugLog := debugLog st @ [?e]\<rparr>)"
      by (rule logInv_append[OF inv good]) (simp add: gainsFor_no_event[OF fresh])
    then show ?thesis
      using True by (simp add: fuzzyStep_def Let_def)
  qed
qed

lemma logInv_foldl_matchStep: "logInv L st \<Longrightarrow> logInv L (foldl (matchStep L keyword) st tags)"
  by (induction tags arbitrary: st) (simp_all add: logInv_matchStep)

lemma logInv_foldl_fuzzyStep: "logInv L st \<Longrightarrow> logInv L (foldl (fuzzyStep L keyword) st tags)"
  by (induction tags arbitrary: st) (simp_all add: logInv_fuzzyStep)

lemma logInv_keywordStep: "logInv L st \<Longrightarrow> logInv L (keywordStep L existingTags st keyword)"
  by (simp add: keywordStep_def logInv_foldl_matchStep logInv_foldl_fuzzyStep)

lemma logInv_scoreKeywords: "logInv L (scoreKeywords L kws existingTags)"
proof -
  have "logInv L st \<Longrightarrow> logInv L (foldl (keywordStep L existingTags) st kws)" for st
    by (induction kws arbitrary: st) (simp_all add: logInv_keywordStep)
  moreover have "logInv L \<lparr>tagScores = [], debugLog = []\<rparr>"
    by (simp add: logInv_def scoresFromLog_def)
  ultimately show ?thesis by (simp add: scoreKeywords_def)
qed

lemma map_of_matchStep:
  "map_of (tagScores (matchStep L k st tag)) =
     (if scoreBoost L k tag > 0
      then (map_of (tagScores st))(tag \<mapsto> tagScore st tag + scoreBoost L k tag)
      else map_of (tagScores st))"
  by (simp add: matchStep_def Let_def update_conv' tagScore_def)

lemma tagScore_matchStep:
  "tagScore (matchStep L k st tag) t =
     tagScore st t + (if tag = t then scoreBoost L k t else 0)"
proof (cases "scoreBoost L k tag > 0")
  case True
  then show ?thesis by (simp add: tagScore_def[of "matchStep L k st tag"] map_of_matchStep) (simp add: tagScore_def)
next
  case False
  then have "scoreBoost L k tag = 0" using scoreBoost_nonneg[of L k tag] by simp
  then show ?thesis by (auto simp: tagScore_def map_of_matchStep)
qed

lemma absent_matchStep:
  "map_of (tagScores (matchStep L k st tag)) t = None \<longleftrightarrow>
     map_of (tagScores st) t = None \<and> \<not> (tag = t \<and> scoreBoost L k t > 0)"
  by (simp add: map_of_matchStep)

lemma tagScore_foldl_matchStep:
  "tagScore (foldl (matchStep L k) st tags) t =
     tagScore st t + of_nat (count_list tags t) * scoreBoost L k t"
  by (induction tags arbitrary: st) (simp_all add: tagScore_matchStep algebra_simps)

lemma absent_foldl_matchStep:
  "map_of (tagScores (foldl (matchStep L k) st tags)) t = None \<longleftrightarrow>
     map_of (tagScores st) t = None \<and> \<not> (t \<in> set tags \<and> scoreBoost L k t > 0)"
  by (induction tags arbitrary: st) (auto simp: absent_matchStep)

lemma map_of_fuzzyStep:
  "map_of (tagScores (fuzzyStep L k st tag)) =
     (if map_of (tagScores st) tag = None \<and> 80 \<le> fuzz_ratio L k tag
      then (map_of (tagScores st))(tag \<mapsto> of_nat (fuzz_ratio L k tag) / 10)
      else map_of (tagScores st))"
  by (simp add: fuzzyStep_def Let_def update_conv')

lemma tagScore_fuzzyStep:
  "tagScore (fuzzyStep L k st tag) t =
     tagScore st t +
     (if tag = t \<and> map_of (tagScores st) t = None \<and> 80 \<le> fuzz_ratio L k t
      then of_nat (fuzz_ratio L k t) / 10 else 0)"
  by (simp add: tagScore_def map_of_fuzzyStep)

lemma absent_fuzzyStep:
  "map_of (tagScores (fuzzyStep L k st tag)) t = None \<longleftrightarrow>
     map_of (tagScores st) t = None \<and> \<not> (tag = t \<and> 80 \<le> fuzz_ratio L k t)"
  by (auto simp: map_of_fuzzyStep)

lemma absent_foldl_fuzzyStep:
  "map_of (tagScores (foldl (fuzzyStep L k) st tags)) t = None \<longleftrightarrow>
     map_of (tagScores st) t = None \<and> \<not> (t \<in> set tags \<and> 80 \<le> fuzz_ratio L k t)"
  by (induction tags arbitrary: st) (auto simp: absent_fuzzyStep)

lemma tagScore_foldl_fuzzyStep:
  "tagScore (foldl (fuzzyStep L k) st tags) t =
     tagScore st t +
     (if t \<in> set tags \<and> map_of (tagScores st) t = None \<and> 80 \<le> fuzz_ratio L k t
      then of_nat (fuzz_ratio L k t) / 10 else 0)"
proof (induction tags arbitrary: st)
  case Nil
  show ?case by simp
next
  case (Cons a tags)
  show ?case
    by (simp add: Cons.IH tagScore_fuzzyStep absent_fuzzyStep)
qed

lemma tagScore_keywordStep:
  "tagScore (keywordStep L tags st k) t =
     tagScore st t + of_nat (count_list tags t) * scoreBoost L k t +
     (if t \<in> set tags \<and> map_of (tagScores st) t = None \<and> \<not> scoreBoost L k t > 0 \<and>
         80 \<le> fuzz_ratio L k t
      then of_nat (fuzz_ratio L k t) / 10 else 0)"
  by (simp add: keywordStep_def tagScore_foldl_fuzzyStep tagScore_foldl_matchStep
      absent_foldl_matchStep)

lemma absent_keywordStep:
  "map_of (tagScores (keywordStep L tags st k)) t = None \<longleftrightarrow>
     map_of (tagScores st) t = None \<and>
     \<not> (t \<in> set tags \<and> (scoreBoost L k t > 0 \<or> 80 \<le> fuzz_ratio L k t))"
  by (auto simp: keywordStep_def absent_foldl_fuzzyStep absent_foldl_matchStep)

lemma tagScore_foldl_keywordStep:
  "\<exists>fz. tagScore (foldl (keywordStep L tags) st kws) t =
          tagScore st t + of_nat (count_list tags t) * (\<Sum>k\<leftarrow>kws. scoreBoost L k t) + fz \<and>
        (fz = 0 \<or>
         (map_of (tagScores st) t = None \<and>
          (\<exists>k\<in>set kws. 80 \<le> fuzz_ratio L k t \<and> fz = of_nat (fuzz_ratio L k t) / 10)))"
proof (induction kws arbitrary: st)
  case Nil
  show ?case by simp
next
  case (Cons k kws)
  let ?st1 = "keywordStep L tags st k"
  let ?f1 = "if t \<in> set tags \<and> map_of (tagScores st) t = None \<and> \<not> scoreBoost L k t > 0 \<and>
                80 \<le> fuzz_ratio L k t
             then of_nat (fuzz_ratio L k t) / 10 else (0::rat)"
  from Cons.IH[of ?st1] obtain fz where
    eq: "tagScore (foldl (keywordStep L tags) ?st1 kws) t =
          tagScore ?st1 t + of_nat (count_list tags t) * (\<Sum>k\<leftarrow>kws. scoreBoost L k t) + fz"
    and alt: "fz = 0 \<or>
         (map_of (tagScores ?st1) t = None \<and>
          (\<exists>k\<in>set kws. 80 \<le> fuzz_ratio L k t \<and> fz = of_nat (fuzz_ratio L k t) / 10))"
    by blast
  have total: "tagScore (foldl (keywordStep L tags) st (k # kws)) t =
          tagScore st t + of_nat (count_list tags t) * (\<Sum>k\<leftarrow>k # kws. scoreBoost L k t) + (?f1 + fz)"
    using eq by (simp add: tagScore_keywordStep algebra_simps)
  have "?f1 + fz = 0 \<or>
         (map_of (tagScores st) t = None \<and>
          (\<exists>k'\<in>set (k # kws). 80 \<le> fuzz_ratio L k' t \<and> ?f1 + fz = of_nat (fuzz_ratio L k' t) / 10))"
  proof (cases "fz = 0")
    case True
    then show ?thesis by auto
  next
    case False
    with alt have a: "map_of (tagScores ?st1) t = None"
      and b: "\<exists>k\<in>set kws. 80 \<le> fuzz_ratio L k t \<and> fz = of_nat (fuzz_ratio L k t) / 10"
      by auto
    from a have c: "map_of (tagScores st) t = None"
      and d: "\<not> (t \<in> set tags \<and> (scoreBoost L k t > 0 \<or> 80 \<le> fuzz_ratio L k t))"
      by (simp_all add: absent_keywordStep)
    from d have "?f1 = 0" by auto
    with b c show ?thesis by auto
  qed
  with total show ?case by blast
qed

section \<open>Scores in closed form\<close>

text \<open>
  The match loop adds a keyword's boost to a tag once for each time the tag is in the corpus;
  the fuzzy loop gives a tag a score only when the map does not have it.
\<close>

lemma scoreBoost_15_iff: "scoreBoost L k t = 15 \<longleftrightarrow> k = t"
  by (simp add: scoreBoost_def matchTypeOf_def)

lemma scoreBoost_other: "k \<noteq> t \<Longrightarrow> scoreBoost L k t \<in> {0, 5, 8, 12}"
  by (simp add: scoreBoost_def matchTypeOf_def)

lemma scoreBoost_zero_iff: "scoreBoost L k t = 0 \<longleftrightarrow> matchTypeOf L k t = NoMatch"
  by (cases "matchTypeOf L k t") (simp_all add: scoreBoost_def)

lemma sum_scoreBoost_split:
  "(\<Sum>k\<leftarrow>kws. scoreBoost L k t) =
     15 * of_nat (count_list kws t) + (\<Sum>k\<leftarrow>filter (\<lambda>k. k \<noteq> t) kws. scoreBoost L k t)"
  by (induction kws) (simp_all add: scoreBoost_15_iff[THEN iffD2] algebra_simps)

lemma sum_scoreBoost_nonneg: "0 \<le> (\<Sum>k\<leftarrow>kws. scoreBoost L k t)"
  by (induction kws) (simp_all add: scoreBoost_nonneg)

lemma tagScore_scoreKeywords:
  "\<exists>fz. tagScore (scoreKeywords L kws tags) t =
          of_nat (count_list tags t) * (\<Sum>k\<leftarrow>kws. scoreBoost L k t) + fz \<and>
        (fz = 0 \<or> (\<exists>k\<in>set kws. 80 \<le> fuzz_ratio L k t \<and> fz = of_nat (fuzz_ratio L k t) / 10))"
proof -
  let ?init = "\<lparr>tagScores = [], debugLog = []\<rparr>"
  have init: "tagScore ?init t = 0" by (simp add: tagScore_def)
  obtain fz where
    a: "tagScore (foldl (keywordStep L tags) ?init kws) t =
          tagScore ?init t + of_nat (count_list tags t) * (\<Sum>k\<leftarrow>kws. scoreBoost L k t) + fz"
    and b: "fz = 0 \<or>
         (map_of (tagScores ?init) t = None \<and>
          (\<exists>k\<in>set kws. 80 \<le> fuzz_ratio L k t \<and> fz = of_nat (fuzz_ratio L k t) / 10))"
    using tagScore_foldl_keywordStep[of L tags ?init kws t] by (elim exE conjE)
  from a have "tagScore (scoreKeywords L kws tags) t =
          of_nat (count_list tags t) * (\<Sum>k\<leftarrow>kws. scoreBoost L k t) + fz"
    by (simp only: scoreKeywords_def init add_0_left)
  moreover from b have
    "fz = 0 \<or> (\<exists>k\<in>set kws. 80 \<le> fuzz_ratio L k t \<and> fz = of_nat (fuzz_ratio L k t) / 10)"
    by (elim disjE conjE) simp_all
  ultimately show ?thesis by (intro exI[of _ fz] conjI)
qed

lemma perfect_score:
  assumes "t \<in> set kws" and "t \<in> set tags"
  shows "15 \<le> tagScore (scoreKeywords L kws tags) t"
proof -
  obtain fz where eq: "tagScore (scoreKeywords L kws tags) t =
          of_nat (count_list tags t) * (\<Sum>k\<leftarrow>kws. scoreBoost L k t) + fz"
    and alt: "fz = 0 \<or> (\<exists>k\<in>set kws. 80 \<le> fuzz_ratio L k t \<and> fz = of_nat (fuzz_ratio L k t) / 10)"
    using tagScore_scoreKeywords[of L kws tags t] by (elim exE conjE)
  from alt have fz: "0 \<le> fz" by auto
  have "count_list kws t \<noteq> 0" using assms(1) by (simp add: count_list_0_iff)
  then have c1: "1 \<le> count_list kws t" by arith
  have "count_list tags t \<noteq> 0" using assms(2) by (simp add: count_list_0_iff)
  then have c2: "1 \<le> count_list tags t" by arith
  have rest: "0 \<le> (\<Sum>k\<leftarrow>filter (\<lambda>k. k \<noteq> t) kws. scoreBoost L k t)"
    by (rule sum_scoreBoost_nonneg)
  have "(15::rat) \<le> 15 * of_nat (count_list kws t)" using c1 by simp
  then have s: "15 \<le> (\<Sum>k\<leftarrow>kws. scoreBoost L k t)"
    using rest by (subst sum_scoreBoost_split) simp
  have one: "(1::rat) \<le> of_nat (count_list tags t)" using c2 by simp
  have pos: "0 \<le> (\<Sum>k\<leftarrow>kws. scoreBoost L k t)" by (rule sum_scoreBoost_nonneg)
  have m: "1 * (\<Sum>k\<leftarrow>kws. scoreBoost L k t)
          \<le> of_nat (count_list tags t) * (\<Sum>k\<leftarrow>kws. scoreBoost L k t)"
    using one pos by (rule mult_right_mono)
  have "15 \<le> 1 * (\<Sum>k\<leftarrow>kws. scoreBoost L k t)" using s by simp
  then have "15 \<le> of_nat (count_list tags t) * (\<Sum>k\<leftarrow>kws. scoreBoost L k t)"
    using m by (rule order_trans)
  with fz show ?thesis by (simp add: eq)
qed

lemma fuzzy_only_score:
  assumes "\<forall>k t. fuzz_ratio L k t \<le> 100"
    and "\<forall>k\<in>set kws. matchTypeOf L k u = NoMatch"
  shows "tagScore (scoreKeywords L kws tags) u \<le> 10"
proof -
  obtain fz where eq: "tagScore (scoreKeywords L kws tags) u =
          of_nat (count_list tags u) * (\<Sum>k\<leftarrow>kws. scoreBoost L k u) + fz"
    and alt: "fz = 0 \<or> (\<exists>k\<in>set kws. 80 \<le> fuzz_ratio L k u \<and> fz = of_nat (fuzz_ratio L k u) / 10)"
    using tagScore_scoreKeywords[of L kws tags u] by (elim exE conjE)
  have z: "(\<Sum>k\<leftarrow>kws. scoreBoost L k u) = 0"
    using assms(2) by (induction kws) (simp_all add: scoreBoost_zero_iff)
  have "fz \<le> 10"
  proof (cases "fz = 0")
    case True
    then show ?thesis by simp
  next
    case False
    with alt obtain k where "fz = of_nat (fuzz_ratio L k u) / 10" by blast
    moreover have "(of_nat (fuzz_ratio L k u) :: rat) \<le> of_nat 100"
      using assms(1)[rule_format, of k u] by (simp only: of_nat_le_iff)
    ultimately show ?thesis by simp
  qed
  then show ?thesis by (simp add: eq z)
qed

lemma tagScores_entry:
  "(t, s) \<in> set (tagScores (scoreKeywords L kws tags)) \<Longrightarrow>
     s = tagScore (scoreKeywords L kws tags) t"
proof -
  assume a: "(t, s) \<in> set (tagScores (scoreKeywords L kws tags))"
  have "distinct (map fst (tagScores (scoreKeywords L kws tags)))"
    using logInv_scoreKeywords[of L kws tags] by (simp add: logInv_def)
  with a have "map_of (tagScores (scoreKeywords L kws tags)) t = Some s" by simp
  then show ?thesis by (simp add: tagScore_def)
qed

lemma tagScore_pos_entry:
  "0 < tagScore st t \<Longrightarrow> (t, tagScore st t) \<in> set (tagScores st)"
  by (auto simp: tagScore_def split: option.splits dest: map_of_SomeD)

lemma distinct_sortByScore:
  "distinct (map fst xs) \<Longrightarrow> distinct (map fst (sortByScore xs))"
proof -
  assume d: "distinct (map fst xs)"
  have "mset (map fst (sortByScore xs)) = mset (map fst xs)"
    by (simp add: sortByScore_mset)
  then show ?thesis using d by (metis distinct_count_atmost_1 set_mset_mset)
qed

lemma set_slice0: "set (slice0 xs e) \<subseteq> set xs"
  by (auto simp: slice0_def dest: in_set_takeD)

lemma findTags_entry:
  assumes "(t, s) \<in> set (findTagsByKeywordsWithScores L store title description teamId)"
  shows "s = tagScore (scoreKeywords L (extractKeywords (title @ '' '' @ description))
                 (getCorpus store teamId)) t"
proof -
  from assms have
    "(t, s) \<in> set (tagScores (scoreKeywords L (extractKeywords (title @ '' '' @ description))
                 (getCorpus store teamId)))"
    by (auto simp: findTagsByKeywordsWithScores_def Let_def dest: in_set_takeD)
  then show ?thesis by (rule tagScores_entry)
qed

lemma addHighScoring_added:
  assumes "t \<in> set (addHighScoringExistingTags currentTags scored)" and "t \<notin> set currentTags"
  shows "\<exists>s. (t, s) \<in> set scored \<and> 15 \<le> s"
proof -
  let ?hi = "sortByScore
              (filter (\<lambda>(tag, score). tag \<notin> set currentTags)
                 (filter (\<lambda>(tag, score). score \<ge> 15) scored))"
  have "addHighScoringExistingTags currentTags scored =
          currentTags @ slice0 (map fst ?hi) (6 - int (length currentTags))"
    by (simp only: addHighScoringExistingTags_def Let_def)
  with assms have "t \<in> set (slice0 (map fst ?hi) (6 - int (length currentTags)))"
    by (simp only: set_append Un_iff) blast
  then have "t \<in> set (map fst ?hi)" by (rule set_slice0[THEN subsetD])
  then obtain s where "(t, s) \<in> set ?hi" by auto
  then have "(t, s) \<in> set (filter (\<lambda>(tag, score). tag \<notin> set currentTags)
                 (filter (\<lambda>(tag, score). score \<ge> 15) scored))"
    by (simp only: sortByScore_set)
  then have "(t, s) \<in> set scored \<and> 15 \<le> s" by simp
  then show ?thesis by (rule exI)
qed

section \<open>Properties of the lexical matcher\<close>

text \<open>
  Claim C7.  In the log of one run of the scoring loops: a fuzzy event for a tag has no
  earlier event for that tag (no match of another type, no earlier fuzzy event) and no later
  fuzzy event for it, its similarity is at least 80 and the score it sets is the similarity
  divided by 10; a match event of one of the four other types adds its boost to the score
  that the earlier events for the tag have added up to; the final score of a tag is the sum
  over its events; the tags of the score map are the tags with an event, each once, also in
  the list that the scorer returns.
\<close>

theorem C7_fuzzy_once_scores_accumulate:
  assumes "st = scoreKeywords L kws existingTags"
  shows
   "(\<forall>before k t sim sc after.
       debugLog st = before @ FuzzyTagMatchFound k t sim sc # after \<longrightarrow>
         t \<notin> eventTag ` set before \<and>
         (\<forall>e\<in>set after. isFuzzy e \<longrightarrow> eventTag e \<noteq> t) \<and>
         sim = fuzz_ratio L k t \<and> 80 \<le> sim \<and> sc = of_nat sim / 10) \<and>
    (\<forall>before m k t old new after.
       debugLog st = before @ TagMatchFound m k t old new # after \<longrightarrow>
         m = matchTypeOf L k t \<and> m \<noteq> NoMatch \<and>
         old = gainsFor t before \<and> new = old + boostOf m) \<and>
    (\<forall>t. tagScore st t = gainsFor t (debugLog st)) \<and>
    (\<forall>t. t \<in> fst ` set (tagScores st) \<longleftrightarrow> t \<in> eventTag ` set (debugLog st)) \<and>
    distinct (map fst (tagScores st)) \<and>
    distinct (map fst (findTagsByKeywordsWithScores L store title description teamId))"
proof -
  have inv: "logInv L st" unfolding assms by (rule logInv_scoreKeywords)
  then have wl: "wellLogged L (debugLog st)" and dist: "distinct (map fst (tagScores st))"
    and sfl: "scoresFromLog st"
    by (simp_all add: logInv_def)
  have fuzzy: "t \<notin> eventTag ` set before \<and>
         (\<forall>e\<in>set after. isFuzzy e \<longrightarrow> eventTag e \<noteq> t) \<and>
         sim = fuzz_ratio L k t \<and> 80 \<le> sim \<and> sc = of_nat sim / 10"
    if log: "debugLog st = before @ FuzzyTagMatchFound k t sim sc # after"
    for before k t sim sc after
  proof -
    have g: "goodEvent L before (FuzzyTagMatchFound k t sim sc)"
      using wl unfolding log by (rule wellLogged_split)
    have later: "eventTag e \<noteq> t" if e: "e \<in> set after" and f: "isFuzzy e" for e
    proof
      assume same: "eventTag e = t"
      from e obtain a1 a2 where sp: "after = a1 @ e # a2" by (auto dest: split_list)
      have "debugLog st = (before @ FuzzyTagMatchFound k t sim sc # a1) @ e # a2"
        by (simp add: log sp)
      with wl have ge: "goodEvent L (before @ FuzzyTagMatchFound k t sim sc # a1) e"
        by (simp only: wellLogged_split)
      from f obtain k' t' sim' sc' where ee: "e = FuzzyTagMatchFound k' t' sim' sc'"
        by (cases e) simp_all
      from ge same show False by (simp add: ee)
    qed
    from g later show ?thesis by simp
  qed
  have match: "m = matchTypeOf L k t \<and> m \<noteq> NoMatch \<and>
         old = gainsFor t before \<and> new = old + boostOf m"
    if log: "debugLog st = before @ TagMatchFound m k t old new # after"
    for before m k t old new after
  proof -
    have "goodEvent L before (TagMatchFound m k t old new)"
      using wl unfolding log by (rule wellLogged_split)
    then show ?thesis unfolding goodEvent.simps .
  qed
  have score: "tagScore st t = gainsFor t (debugLog st)" for t
    using sfl by (simp add: tagScore_def scoresFromLog_def gainsFor_no_event)
  have keys: "t \<in> fst ` set (tagScores st) \<longleftrightarrow> t \<in> eventTag ` set (debugLog st)" for t
  proof -
    have "t \<in> fst ` set (tagScores st) \<longleftrightarrow> map_of (tagScores st) t \<noteq> None"
      by (simp add: map_of_eq_None_iff)
    also have "\<dots> \<longleftrightarrow> t \<in> eventTag ` set (debugLog st)"
      using sfl by (simp add: scoresFromLog_def)
    finally show ?thesis .
  qed
  have "logInv L (scoreKeywords L (extractKeywords (title @ '' '' @ description))
                    (getCorpus store teamId))"
    by (rule logInv_scoreKeywords)
  then have "distinct (map fst (sortByScore (tagScores
                 (scoreKeywords L (extractKeywords (title @ '' '' @ description))
                    (getCorpus store teamId)))))"
    by (simp add: logInv_def distinct_sortByScore)
  then have res: "distinct (map fst (findTagsByKeywordsWithScores L store title description teamId))"
    by (simp add: findTagsByKeywordsWithScores_def Let_def take_map[symmetric] distinct_take)
  from fuzzy match score keys dist res show ?thesis by blast
qed

theorem C7_fuzzy_once_scores_accumulate_witness:
  "debugLog (scoreKeywords sampleLibraries [''pyhton'', ''python'', ''react''] [''python'', ''react''])
     = [FuzzyTagMatchFound ''pyhton'' ''python'' 83 (83 / 10),
        TagMatchFound Perfect ''python'' ''python'' (83 / 10) (233 / 10),
        TagMatchFound Perfect ''react'' ''react'' 0 15] \<and>
   fuzz_ratio sampleLibraries ''pyhton'' ''python'' = 83 \<and>
   gainsFor ''python'' [FuzzyTagMatchFound ''pyhton'' ''python'' 83 (83 / 10)] = 83 / 10 \<and>
   tagScore (scoreKeywords sampleLibraries [''pyhton'', ''python'', ''react''] [''python'', ''react''])
     ''python'' = 233 / 10"
proof -
  let ?st = "scoreKeywords sampleLibraries [''pyhton'', ''python'', ''react''] [''python'', ''react'']"
  have log: "debugLog ?st
     = [FuzzyTagMatchFound ''pyhton'' ''python'' 83 (83 / 10),
        TagMatchFound Perfect ''python'' ''python'' (83 / 10) (233 / 10),
        TagMatchFound Perfect ''react'' ''react'' 0 15]"
    by code_simp
  note c = C7_fuzzy_once_scores_accumulate
    [OF refl, where L = sampleLibraries and kws = "[''pyhton'', ''python'', ''react'']"
       and existingTags = "[''python'', ''react'']" and store = sampleStore
       and title = "[]" and description = "[]" and teamId = None]
  have l1: "debugLog ?st = [] @ FuzzyTagMatchFound ''pyhton'' ''python'' 83 (83 / 10) #
        [TagMatchFound Perfect ''python'' ''python'' (83 / 10) (233 / 10),
         TagMatchFound Perfect ''react'' ''react'' 0 15]"
    using log by simp
  have l2: "debugLog ?st = [FuzzyTagMatchFound ''pyhton'' ''python'' 83 (83 / 10)] @
        TagMatchFound Perfect ''python'' ''python'' (83 / 10) (233 / 10) #
        [TagMatchFound Perfect ''react'' ''react'' 0 15]"
    using log by simp
  from c[THEN conjunct1, rule_format, OF l1]
  have a: "(83::nat) = fuzz_ratio sampleLibraries ''pyhton'' ''python''" by (elim conjE)
  from c[THEN conjunct2, THEN conjunct1, rule_format, OF l2]
  have b: "(83 / 10 :: rat) = gainsFor ''python'' [FuzzyTagMatchFound ''pyhton'' ''python'' 83 (83 / 10)]"
    by (elim conjE)
  from c[THEN conjunct2, THEN conjunct2, THEN conjunct1, rule_format, of "''python''"]
  have "tagScore ?st ''python'' = gainsFor ''python'' (debugLog ?st)" .
  also have "\<dots> = 233 / 10" unfolding log by (simp add: gainsFor_def)
  finally have d: "tagScore ?st ''python'' = 233 / 10" .
  from log a[symmetric] b[symmetric] d show ?thesis by (intro conjI)
qed

text \<open>
  Claim C8.  The score of a tag \<open>t\<close> is, for each time \<open>t\<close> is in the corpus, 15 for each
  occurrence of the keyword \<open>t\<close> plus the boosts of the other keywords (none of which is
  15), plus at most one fuzzy score.  The scorer returns the first 6 entries of the score map
  sorted by descending score, where entries of equal score keep the order of the map.  When
  similarities are at most 100, a tag that is both a keyword and in the corpus has a score of
  at least 15, a tag that no keyword matches other than fuzzily has at most 10, and wherever
  the latter is in the result the former is there before it.
\<close>

theorem C8_perfect_match_scoring_and_ranking:
  assumes "kws = extractKeywords (title @ '' '' @ description)"
    and "existingTags = getCorpus store teamId"
    and "st = scoreKeywords L kws existingTags"
    and "result = findTagsByKeywordsWithScores L store title description teamId"
  shows
   "(\<forall>t. \<exists>fz.
        tagScore st t =
          of_nat (count_list existingTags t) *
            (15 * of_nat (count_list kws t) +
             (\<Sum>k\<leftarrow>filter (\<lambda>k. k \<noteq> t) kws. scoreBoost L k t)) + fz \<and>
        (fz = 0 \<or> (\<exists>k\<in>set kws. 80 \<le> fuzz_ratio L k t \<and> fz = of_nat (fuzz_ratio L k t) / 10))) \<and>
    (\<forall>k t. (scoreBoost L k t = 15 \<longleftrightarrow> k = t) \<and> 0 \<le> scoreBoost L k t) \<and>
    result = take 6 (sortByScore (tagScores st)) \<and>
    (\<forall>t s. (t, s) \<in> set result \<longrightarrow> s = tagScore st t) \<and>
    sorted_wrt (\<lambda>a b. snd b \<le> snd a) result \<and>
    (\<forall>v. filter (\<lambda>e. snd e = v) (sortByScore (tagScores st)) =
           filter (\<lambda>e. snd e = v) (tagScores st)) \<and>
    ((\<forall>k t. fuzz_ratio L k t \<le> 100) \<longrightarrow>
       (\<forall>t u. t \<in> set kws \<and> t \<in> set existingTags \<and>
              (\<forall>k\<in>set kws. matchTypeOf L k u = NoMatch) \<longrightarrow>
          15 \<le> tagScore st t \<and> tagScore st u \<le> 10 \<and>
          (\<forall>j<length result. fst (result ! j) = u \<longrightarrow> (\<exists>i<j. fst (result ! i) = t))))"
proof -
  let ?S = "sortByScore (tagScores st)"
  have res: "result = take 6 ?S"
    by (simp add: assms findTagsByKeywordsWithScores_def Let_def)
  have formula: "\<exists>fz.
        tagScore st t =
          of_nat (count_list existingTags t) *
            (15 * of_nat (count_list kws t) +
             (\<Sum>k\<leftarrow>filter (\<lambda>k. k \<noteq> t) kws. scoreBoost L k t)) + fz \<and>
        (fz = 0 \<or> (\<exists>k\<in>set kws. 80 \<le> fuzz_ratio L k t \<and> fz = of_nat (fuzz_ratio L k t) / 10))"
    for t
    using tagScore_scoreKeywords[of L kws existingTags t]
    unfolding assms(3) sum_scoreBoost_split[of L t kws] .
  have boost: "(scoreBoost L k t = 15 \<longleftrightarrow> k = t) \<and> 0 \<le> scoreBoost L k t" for k t
    by (simp add: scoreBoost_15_iff scoreBoost_nonneg)
  have entry: "s = tagScore st t" if "(t, s) \<in> set result" for t s
  proof -
    from that have "(t, s) \<in> set (tagScores st)"
      unfolding res by (auto dest: in_set_takeD)
    then show ?thesis unfolding assms(3) by (rule tagScores_entry)
  qed
  have sorted_S: "sorted_wrt (\<lambda>a b. snd b \<le> snd a) ?S" by (rule sortByScore_sorted)
  then have sorted: "sorted_wrt (\<lambda>a b. snd b \<le> snd a) result"
    unfolding res by (rule sorted_wrt_take)
  have stable: "filter (\<lambda>e. snd e = v) ?S = filter (\<lambda>e. snd e = v) (tagScores st)" for v
    by (rule sortByScore_stable)
  have rank: "15 \<le> tagScore st t \<and> tagScore st u \<le> 10 \<and>
          (\<forall>j<length result. fst (result ! j) = u \<longrightarrow> (\<exists>i<j. fst (result ! i) = t))"
    if bound: "\<forall>k t. fuzz_ratio L k t \<le> 100"
      and tk: "t \<in> set kws" and tt: "t \<in> set existingTags"
      and un: "\<forall>k\<in>set kws. matchTypeOf L k u = NoMatch"
    for t u
  proof -
    have hi: "15 \<le> tagScore st t" unfolding assms(3) using tk tt by (rule perfect_score)
    have lo: "tagScore st u \<le> 10" unfolding assms(3) using bound un by (rule fuzzy_only_score)
    have "0 < tagScore st t" using hi by simp
    then have mem: "(t, tagScore st t) \<in> set ?S" by (simp add: tagScore_pos_entry)
    obtain i where i: "i < length ?S" and Si: "?S ! i = (t, tagScore st t)"
      using mem[unfolded in_set_conv_nth] by (elim exE conjE)
    have above: "\<exists>i<j. fst (result ! i) = t"
      if j: "j < length result" and uj: "fst (result ! j) = u" for j
    proof -
      from j have jS: "j < length ?S" and j6: "j < 6" and rj: "result ! j = ?S ! j"
        unfolding res by simp_all
      have "result ! j \<in> set result" using j by simp
      then have "(u, snd (result ! j)) \<in> set result" using uj by (metis prod.collapse)
      then have sj: "snd (?S ! j) = tagScore st u" using entry rj by simp
      have "i < j"
      proof (rule ccontr)
        assume "\<not> i < j"
        then consider "i = j" | "j < i" by fastforce
        then show False
        proof cases
          case 1
          with Si sj have "tagScore st t = tagScore st u" by simp
          with hi lo show False by simp
        next
          case 2
          with sorted_S i have "snd (?S ! i) \<le> snd (?S ! j)"
            by (simp add: sorted_wrt_iff_nth_less)
          with Si sj hi lo show False by simp
        qed
      qed
      moreover from this j6 have "result ! i = ?S ! i" using i unfolding res by simp
      ultimately show ?thesis using Si by (intro exI[of _ i]) simp
    qed
    from hi lo above show ?thesis by blast
  qed
  from formula boost res entry sorted stable rank show ?thesis by blast
qed

theorem C8_perfect_match_scoring_and_ranking_witness:
  "findTagsByKeywordsWithScores sampleLibraries sampleStore ''React Hooks pyhton'' [] (Some ''T1'')
     = [(''react'', 15), (''hook'', 12), (''python'', 83 / 10)] \<and>
   15 \<le> tagScore (scoreKeywords sampleLibraries (extractKeywords ''React Hooks pyhton '')
                  (getCorpus sampleStore (Some ''T1''))) ''react'' \<and>
   tagScore (scoreKeywords sampleLibraries (extractKeywords ''React Hooks pyhton '')
                  (getCorpus sampleStore (Some ''T1''))) ''python'' \<le> 10 \<and>
   (\<exists>i<2. fst (findTagsByKeywordsWithScores sampleLibraries sampleStore
                  ''React Hooks pyhton'' [] (Some ''T1'') ! i) = ''react'')"
proof -
  let ?kws = "extractKeywords (''React Hooks pyhton'' @ '' '' @ [])"
  let ?tags = "getCorpus sampleStore (Some ''T1'')"
  let ?st = "scoreKeywords sampleLibraries ?kws ?tags"
  let ?res = "findTagsByKeywordsWithScores sampleLibraries sampleStore
                ''React Hooks pyhton'' [] (Some ''T1'')"
  have r: "?res = [(''react'', 15), (''hook'', 12), (''python'', 83 / 10)]" by code_simp
  have bound: "\<forall>k t. fuzz_ratio sampleLibraries k t \<le> 100"
    by (simp add: sampleLibraries_def)
  have tk: "''react'' \<in> set ?kws" by code_simp
  have tt: "''react'' \<in> set ?tags" by code_simp
  have un: "\<forall>k\<in>set ?kws. matchTypeOf sampleLibraries k ''python'' = NoMatch" by code_simp
  note c = C8_perfect_match_scoring_and_ranking [OF refl refl refl refl,
      where L = sampleLibraries and store = sampleStore and title = "''React Hooks pyhton''"
        and description = "[]" and teamId = "Some ''T1''"]
  have rank: "15 \<le> tagScore ?st ''react'' \<and> tagScore ?st ''python'' \<le> 10 \<and>
      (\<forall>j<length ?res. fst (?res ! j) = ''python'' \<longrightarrow> (\<exists>i<j. fst (?res ! i) = ''react''))"
    by (rule c[THEN conjunct2, THEN conjunct2, THEN conjunct2, THEN conjunct2, THEN conjunct2,
            THEN conjunct2, rule_format, OF bound[rule_format] conjI[OF tk conjI[OF tt un]]])
  have j: "2 < length ?res" and f: "fst (?res ! 2) = ''python''" unfolding r by simp_all
  have ex: "\<exists>i<2. fst (?res ! i) = ''react''"
    by (rule rank[THEN conjunct2, THEN conjunct2, rule_format, OF j f])
  have a: "15 \<le> tagScore ?st ''react''" using rank by (elim conjE)
  have b: "tagScore ?st ''python'' \<le> 10" using rank by (elim conjE)
  from r a b ex show ?thesis by simp
qed

text \<open>
  Claim C10.  When similarities are at most 100, a tag that no keyword matches other than
  fuzzily has a score of at most 10 wherever the scorer lists it, below the threshold of 15,
  and the reconciler's result holds it only if the current tags held it.
\<close>

theorem C10_fuzzy_only_never_forced:
  assumes "\<forall>k t. fuzz_ratio L k t \<le> 100"
    and "\<forall>k\<in>set (extractKeywords (title @ '' '' @ description)). matchTypeOf L k u = NoMatch"
    and "scored = findTagsByKeywordsWithScores L store title description teamId"
  shows "(\<forall>s. (u, s) \<in> set scored \<longrightarrow> s \<le> 10 \<and> s < 15) \<and>
         (u \<in> set (addHighScoringExistingTags currentTags scored) \<longrightarrow> u \<in> set currentTags)"
proof -
  have low: "s \<le> 10" if "(u, s) \<in> set scored" for s
  proof -
    from that have "s = tagScore (scoreKeywords L (extractKeywords (title @ '' '' @ description))
                 (getCorpus store teamId)) u"
      unfolding assms(3) by (rule findTags_entry)
    also have "\<dots> \<le> 10" using assms(1,2) by (rule fuzzy_only_score)
    finally show ?thesis .
  qed
  have kept: "u \<in> set currentTags"
    if inres: "u \<in> set (addHighScoringExistingTags currentTags scored)"
  proof (rule ccontr)
    assume notcur: "u \<notin> set currentTags"
    obtain s where "(u, s) \<in> set scored" and "15 \<le> s"
      using addHighScoring_added[OF inres notcur] by (elim exE conjE)
    with low[of s] show False by simp
  qed
  have both: "s \<le> 10 \<and> s < 15" if "(u, s) \<in> set scored" for s
    using low[OF that] by simp
  show ?thesis
  proof (intro conjI allI impI)
    fix s assume "(u, s) \<in> set scored"
    then show "s \<le> 10" by (rule both[THEN conjunct1])
  next
    fix s assume "(u, s) \<in> set scored"
    then show "s < 15" by (rule both[THEN conjunct2])
  next
    assume "u \<in> set (addHighScoringExistingTags currentTags scored)"
    then show "u \<in> set currentTags" by (rule kept)
  qed
qed

theorem C10_fuzzy_only_never_forced_witness:
  "(''python'', 83 / 10) \<in> set (findTagsByKeywordsWithScores sampleLibraries sampleStore
        ''React Hooks pyhton'' [] (Some ''T1'')) \<and>
   (83 / 10 :: rat) < 15 \<and>
   ''python'' \<notin> set (addHighScoringExistingTags [''frontend'']
        (findTagsByKeywordsWithScores sampleLibraries sampleStore
           ''React Hooks pyhton'' [] (Some ''T1''))) \<and>
   addHighScoringExistingTags [''frontend'']
        (findTagsByKeywordsWithScores sampleLibraries sampleStore
           ''React Hooks pyhton'' [] (Some ''T1'')) = [''frontend'', ''react'']"
proof -
  let ?res = "findTagsByKeywordsWithScores sampleLibraries sampleStore
                ''React Hooks pyhton'' [] (Some ''T1'')"
  have r: "?res = [(''react'', 15), (''hook'', 12), (''python'', 83 / 10)]" by code_simp
  have bound: "\<forall>k t. fuzz_ratio sampleLibraries k t \<le> 100"
    by (simp add: sampleLibraries_def)
  have un: "\<forall>k\<in>set (extractKeywords (''React Hooks pyhton'' @ '' '' @ [])).
              matchTypeOf sampleLibraries k ''python'' = NoMatch" by code_simp
  note c = C10_fuzzy_only_never_forced [OF bound un refl,
      where store = sampleStore and teamId = "Some ''T1''" and currentTags = "[''frontend'']"]
  have m: "(''python'', 83 / 10) \<in> set ?res" unfolding r by simp
  have lt: "(83 / 10 :: rat) < 15" by (rule c[THEN conjunct1, rule_format, OF m, THEN conjunct2])
  have n: "''python'' \<notin> set (addHighScoringExistingTags [''frontend''] ?res)"
  proof
    assume "''python'' \<in> set (addHighScoringExistingTags [''frontend''] ?res)"
    then have "''python'' \<in> set [''frontend'']" by (rule c[THEN conjunct2, rule_format])
    then show False by simp
  qed
  have a: "addHighScoringExistingTags [''frontend''] ?res = [''frontend'', ''react'']"
    by code_simp
  from m lt n a show ?thesis by (intro conjI)
qed

end
